theory Spec2Isabelle
  imports
    Complex_Main
    "HOL-Library.Word"
    "HOL-Library.Multiset"
    "HOL-Library.Char_ord"
    "HOL-Library.List_Lexorder"
    "HOL-Library.RBT"
begin

section \<open>The Typhoon H QtQuick interface (TyphoonHQuickInterface.cc)\<close>

text \<open>
  A shallow embedding of the parts of \<^verbatim>\<open>src/custom/src/TyphoonHQuickInterface.cc\<close> that
  carry logic: the media list, the thermal opacity setter, the WiFi network list, the WiFi
  credential map, the log rotation of \<^verbatim>\<open>init\<close>, the mission import and the firmware
  copy loop of \<^verbatim>\<open>TyphoonHFileCopy\<close>.

  Conventions. A private member \<^verbatim>\<open>_name\<close> of the source is written \<open>name\<close>. A
  \<^verbatim>\<open>QString\<close> is a \<open>string\<close>; its comparison operators are the lexicographic order on
  the code units. A Qt signal is a constructor of a datatype, written with a capital
  initial, and \<^verbatim>\<open>emit\<close> appends it to the list of signals emitted so far. The C++
  \<^verbatim>\<open>int\<close> values that occur (list indices, RSSI values, delays) are \<open>int\<close>: the code
  only compares and stores them. Strings passed through \<^verbatim>\<open>tr\<close> are the untranslated
  source texts.
\<close>

subsection \<open>Values\<close>

text \<open>
  A \<^verbatim>\<open>double\<close> that is only compared and stored is modelled by the value it denotes: a
  real number, one of the two infinities, or a NaN. Comparisons of doubles are exact, so
  \<open>dless\<close>, \<open>dgreater\<close> and \<open>dneq\<close> are the C++ operators \<^verbatim>\<open><\<close>, \<^verbatim>\<open>>\<close> and
  \<^verbatim>\<open>!=\<close>: every comparison with a NaN is false, except \<^verbatim>\<open>!=\<close>, which is true. (The
  two zeros of IEEE 754 compare equal and are both \<open>Finite 0\<close>.)
\<close>

datatype double = Finite real | PosInf | NegInf | NaN

fun dless :: "double \<Rightarrow> double \<Rightarrow> bool" where
  "dless NaN _ = False"
| "dless _ NaN = False"
| "dless (Finite a) (Finite b) = (a < b)"
| "dless (Finite _) PosInf = True"
| "dless (Finite _) NegInf = False"
| "dless PosInf _ = False"
| "dless NegInf NegInf = False"
| "dless NegInf _ = True"

definition dgreater :: "double \<Rightarrow> double \<Rightarrow> bool" where
  "dgreater a b = dless b a"

definition dneq :: "double \<Rightarrow> double \<Rightarrow> bool" where
  "dneq a b = (a = NaN \<or> b = NaN \<or> a \<noteq> b)"

text \<open>The closed interval \<^verbatim>\<open>[0.0, 100.0]\<close> of doubles.\<close>

definition in_opacity_range :: "double \<Rightarrow> bool" where
  "in_opacity_range d = (case d of Finite r \<Rightarrow> 0 \<le> r \<and> r \<le> 100 | _ \<Rightarrow> False)"

text \<open>
  \<^verbatim>\<open>QSettings\<close>, the persistent key/value store of the application: a value for a key
  inside a group (the group is empty for a top-level key).
\<close>

datatype qvariant = VDouble double | VString string

type_synonym qsettings = "string \<times> string \<Rightarrow> qvariant option"

definition kWifiConfig :: string where
  "kWifiConfig = ''WifiConfig''"

definition kThermalOpacity :: string where
  "kThermalOpacity = ''ThermalOpacity''"

text \<open>
  \<^verbatim>\<open>std::sort(first, last, comp)\<close> leaves the elements in an order in which \<^verbatim>\<open>comp(b, a)\<close>
  is false whenever \<open>a\<close> stands before \<open>b\<close>; the order of elements that \<^verbatim>\<open>comp\<close> does not
  separate is unspecified. It is modelled by insertion sort, which yields one such order.
\<close>

fun sort_insert :: "('a \<Rightarrow> 'a \<Rightarrow> bool) \<Rightarrow> 'a \<Rightarrow> 'a list \<Rightarrow> 'a list" where
  "sort_insert lt x [] = [x]"
| "sort_insert lt x (y # ys) =
     (if lt x y then x # y # ys else y # sort_insert lt x ys)"

definition std_sort :: "('a \<Rightarrow> 'a \<Rightarrow> bool) \<Rightarrow> 'a list \<Rightarrow> 'a list" where
  "std_sort lt xs = foldr (sort_insert lt) xs []"

text \<open>
  How a loop was left: by a \<^verbatim>\<open>return\<close> inside its body, or by its condition becoming
  false, after which the code behind the loop runs; \<open>exit_state\<close> is the state in which
  it was left.
\<close>

datatype 'a loop_exit = Returned (exit_state: 'a) | Fallthrough (exit_state: 'a)

subsection \<open>The class \<^verbatim>\<open>TyphoonHQuickInterface\<close>\<close>

text \<open>\<^verbatim>\<open>TyphoonMediaItem\<close>: a file name and a selection flag.\<close>

record TyphoonMediaItem =
  fileName :: string
  selected :: bool

text \<open>
  \<^verbatim>\<open>TyphoonSSIDItem\<close>: an SSID and its signal strength. The class is declared in a header
  that is not part of the sources; \<^verbatim>\<open>ssid()\<close> and \<^verbatim>\<open>rssi()\<close> are taken to read the two
  members and \<^verbatim>\<open>setRssi\<close> to store its argument.
\<close>

record TyphoonSSIDItem =
  ssid :: string
  rssi :: int

datatype signal =
    ThermalOpacityChanged | SelectedCountChanged | MediaListChanged
  | SsidListChanged | ScanningWiFiChanged | BindingWiFiChanged | ConnectedSSIDChanged
  | AuthenticationError
  | CopyingFilesChanged | CopyingDoneChanged | CopyMessageChanged | UpdateProgressChanged

text \<open>The slots that the code hands to \<^verbatim>\<open>QTimer::singleShot\<close>.\<close>

datatype slot = Slot_scanWifi | Slot_importMissions

text \<open>
  The members of the class that the modelled functions read or write (the member
  \<^verbatim>\<open>_ssid\<close> is \<open>ssid'\<close>, since \<open>ssid\<close> is the accessor of \<open>TyphoonSSIDItem\<close>), together
  with what they change outside the object: the settings store, the signals emitted, the
  single-shot timers started (delay and slot) and the static Java methods called through
  JNI. \<^verbatim>\<open>_configurations\<close> is a \<^verbatim>\<open>QMap<QString, QString>\<close>, a search tree iterated in
  the order of its keys.
\<close>

record TyphoonHQuickInterface =
  thermalOpacity :: double
  mediaList :: "TyphoonMediaItem list"
  selectedCount :: int
  browseVideos :: bool
  ssidList :: "TyphoonSSIDItem list"
  scanEnabled :: bool
  scanningWiFi :: bool
  bindingWiFi :: bool
  ssid' :: string
  configurations :: "(string, string) rbt"
  copyingFiles :: bool
  copyingDone :: bool
  copyMessage :: string
  updateProgress :: int
  settings :: qsettings
  emitted :: "signal list"
  timers :: "(int \<times> slot) list"
  jni_calls :: "string list"

text \<open>
  The compile-time configuration: the preprocessor symbols the modelled functions test,
  and two things declared in headers that are not part of the sources, the default
  argument of \<^verbatim>\<open>startScan(int delay)\<close> and the macro \<^verbatim>\<open>YUNEEC_VIDEO_EXTENSION\<close>.
\<close>

record build =
  androidx86 :: bool
  android :: bool
  qt_debug :: bool
  startScan_default_delay :: int
  YUNEEC_VIDEO_EXTENSION :: string

definition emit :: "signal \<Rightarrow> TyphoonHQuickInterface \<Rightarrow> TyphoonHQuickInterface" where
  "emit s st = st\<lparr>emitted := emitted st @ [s]\<rparr>"

text \<open>
  The object as the constructor leaves it when the settings store is empty and no network
  is connected: the values of the initialiser list, the default opacity 85, empty lists and
  no stored credentials.
\<close>

definition constructed :: TyphoonHQuickInterface where
  "constructed =
     \<lparr>thermalOpacity = Finite 85, mediaList = [], selectedCount = 0, browseVideos = False,
      ssidList = [], scanEnabled = False, scanningWiFi = False, bindingWiFi = False,
      ssid' = [], configurations = RBT.empty, copyingFiles = False, copyingDone = False,
      copyMessage = [], updateProgress = 0, settings = (\<lambda>_. None), emitted = [],
      timers = [], jni_calls = []\<rparr>"

subsection \<open>Media list accessors\<close>

text \<open>
  \<^verbatim>\<open>mediaCount()\<close> returns \<^verbatim>\<open>_mediaList.size()\<close>; \<^verbatim>\<open>mediaItem(index)\<close> returns the
  pointer stored at \<^verbatim>\<open>index\<close> when the three guards hold and \<^verbatim>\<open>NULL\<close> otherwise. The
  pointer result is an option: \<open>None\<close> is \<^verbatim>\<open>NULL\<close>.
\<close>

definition mediaCount :: "TyphoonHQuickInterface \<Rightarrow> int" where
  "mediaCount st = int (length (mediaList st))"

definition mediaItem :: "TyphoonHQuickInterface \<Rightarrow> int \<Rightarrow> TyphoonMediaItem option" where
  "mediaItem st index =
     (if index \<ge> 0 \<and> int (length (mediaList st)) \<noteq> 0 \<and> index < int (length (mediaList st))
      then Some (mediaList st ! nat index)
      else None)"

definition clearMediaItems :: "TyphoonHQuickInterface \<Rightarrow> TyphoonHQuickInterface" where
  "clearMediaItems st = st\<lparr>mediaList := []\<rparr>"

definition appendMediaItem ::
  "TyphoonMediaItem \<Rightarrow> TyphoonHQuickInterface \<Rightarrow> TyphoonHQuickInterface" where
  "appendMediaItem p st = st\<lparr>mediaList := mediaList st @ [p]\<rparr>"

subsection \<open>Thermal opacity\<close>

definition setThermalOpacity ::
  "double \<Rightarrow> TyphoonHQuickInterface \<Rightarrow> TyphoonHQuickInterface" where
  "setThermalOpacity val0 st =
     (let val1 = (if dless val0 (Finite 0) then Finite 0 else val0);
          val = (if dgreater val1 (Finite 100) then Finite 100 else val1)
      in if dneq (thermalOpacity st) val
         then emit ThermalOpacityChanged
                (st\<lparr>thermalOpacity := val,
                    settings := (settings st)(([], kThermalOpacity) \<mapsto> VDouble val)\<rparr>)
         else st)"

subsection \<open>The WiFi network list\<close>

definition compareRSSI :: "TyphoonSSIDItem \<Rightarrow> TyphoonSSIDItem \<Rightarrow> bool" where
  "compareRSSI s1 s2 = (rssi s1 > rssi s2)"

text \<open>
  \<^verbatim>\<open>_findSsid(ssid, rssi)\<close> walks the list; at the first item whose SSID equals \<open>ssid\<close>
  it sets that item's RSSI and returns the item. The result is \<open>Some\<close> of the list as the
  call leaves it when an item was found, and \<open>None\<close> (\<^verbatim>\<open>NULL\<close>, nothing changed)
  otherwise.
\<close>

fun findSsid :: "string \<Rightarrow> int \<Rightarrow> TyphoonSSIDItem list \<Rightarrow> TyphoonSSIDItem list option" where
  "findSsid n r [] = None"
| "findSsid n r (s # rest) =
     (if ssid s = n then Some (s\<lparr>rssi := r\<rparr> # rest)
      else map_option ((#) s) (findSsid n r rest))"

definition clearSSids :: "TyphoonHQuickInterface \<Rightarrow> TyphoonHQuickInterface" where
  "clearSSids st = st\<lparr>ssidList := []\<rparr>"

text \<open>\<^verbatim>\<open>QString::startsWith\<close>, case sensitive.\<close>

definition startsWith :: "string \<Rightarrow> string \<Rightarrow> bool" where
  "startsWith s p = (take (length p) s = p)"

text \<open>
  \<^verbatim>\<open>_newSSID(ssid, rssi)\<close>. Unless \<^verbatim>\<open>QT_DEBUG\<close> is defined, only the SSIDs of the
  supported cameras are considered. A new SSID is appended and the list sorted; for a
  known one \<open>findSsid\<close> has updated the RSSI and nothing else happens.
\<close>

definition camera_ssid :: "string \<Rightarrow> bool" where
  "camera_ssid n =
     (startsWith n ''CGOET'' \<or> startsWith n ''E10T'' \<or> startsWith n ''E90_''
      \<or> startsWith n ''E50_'')"

definition newSSID ::
  "build \<Rightarrow> string \<Rightarrow> int \<Rightarrow> TyphoonHQuickInterface \<Rightarrow> TyphoonHQuickInterface" where
  "newSSID b n r st =
     (if qt_debug b \<or> camera_ssid n
      then (case findSsid n r (ssidList st) of
              Some updated \<Rightarrow> st\<lparr>ssidList := updated\<rparr>
            | None \<Rightarrow>
                emit SsidListChanged
                  (st\<lparr>ssidList :=
                        std_sort compareRSSI (ssidList st @ [\<lparr>ssid = n, rssi = r\<rparr>])\<rparr>))
      else st)"

definition scanWifi :: "build \<Rightarrow> TyphoonHQuickInterface \<Rightarrow> TyphoonHQuickInterface" where
  "scanWifi b st =
     emit ScanningWiFiChanged
       ((if androidx86 b then st\<lparr>jni_calls := jni_calls st @ [''startWifiScan'']\<rparr> else st)
          \<lparr>scanningWiFi := True\<rparr>)"

text \<open>
  \<^verbatim>\<open>startScan(delay)\<close>: clears the list, then starts a scan at once or after \<open>delay\<close>
  milliseconds; a build without \<^verbatim>\<open>__androidx86__\<close> reports eight made-up networks
  instead.
\<close>

definition startScan ::
  "build \<Rightarrow> int \<Rightarrow> TyphoonHQuickInterface \<Rightarrow> TyphoonHQuickInterface" where
  "startScan b delay st =
     (let st1 = emit SsidListChanged ((clearSSids st)\<lparr>scanEnabled := True\<rparr>)
      in if androidx86 b
         then (if delay \<noteq> 0 then st1\<lparr>timers := timers st1 @ [(delay, Slot_scanWifi)]\<rparr>
               else scanWifi b st1)
         else foldl (\<lambda>s (n, r). newSSID b n r s) st1
                [(''Some SSID'', 0), (''Another SSID'', - 10), (''Yet Another SSID'', - 20),
                 (''More SSID'', - 30), (''CIA Headquarters'', - 40),
                 (''Trump Putin Direct'', - 50), (''Short'', - 60),
                 (''A Whole Lot Longer and Useless'', - 90)])"

subsection \<open>The WiFi credential map\<close>

text \<open>
  \<^verbatim>\<open>_saveWifiConfigurations()\<close>: inside the group \<open>kWifiConfig\<close>, \<^verbatim>\<open>settings.remove("")\<close>
  removes every key of the group; then every entry of the map with a non-empty key is
  written, in the order of the keys.
\<close>

definition remove_group :: "string \<Rightarrow> qsettings \<Rightarrow> qsettings" where
  "remove_group g s = (\<lambda>(g', k). if g' = g then None else s (g', k))"

definition saveWifiConfigurations :: "TyphoonHQuickInterface \<Rightarrow> TyphoonHQuickInterface" where
  "saveWifiConfigurations st =
     st\<lparr>settings :=
          RBT.fold (\<lambda>k v s. if k \<noteq> [] then s((kWifiConfig, k) \<mapsto> VString v) else s)
            (configurations st) (remove_group kWifiConfig (settings st))\<rparr>"

text \<open>
  \<^verbatim>\<open>_authenticationError()\<close>, the slot connected to the hardware interface's
  \<^verbatim>\<open>authenticationError\<close> signal.
\<close>

definition authenticationError ::
  "build \<Rightarrow> TyphoonHQuickInterface \<Rightarrow> TyphoonHQuickInterface" where
  "authenticationError b st =
     (let st1 = (if RBT.lookup (configurations st) (ssid' st) \<noteq> None
                 then saveWifiConfigurations
                        (st\<lparr>configurations := RBT.delete (ssid' st) (configurations st)\<rparr>)
                 else st);
          st2 = emit BindingWiFiChanged (st1\<lparr>bindingWiFi := False\<rparr>);
          st3 = emit ConnectedSSIDChanged st2;
          st4 = emit AuthenticationError st3
      in startScan b (startScan_default_delay b) st4)"

subsection \<open>Refreshing the media list\<close>

text \<open>
  An entry of a directory, with the attributes \<^verbatim>\<open>QDir\<close> filters on: a regular file or
  not, readable or not, a symbolic link or not, hidden or not.
\<close>

record dir_entry =
  entryName :: string
  isFile :: bool
  isReadable :: bool
  isSymLink :: bool
  isHidden :: bool

text \<open>
  The name filters of a \<^verbatim>\<open>QDir\<close> are wildcard patterns: \<^verbatim>\<open>*\<close> matches any sequence of
  characters, \<^verbatim>\<open>?\<close> any single character, and any other character of the patterns used
  here matches itself. Unless \<^verbatim>\<open>QDir::CaseSensitive\<close> is set, which the code does not
  do, letters match without regard to case (here: the ASCII letters).
\<close>

definition toLower :: "char \<Rightarrow> char" where
  "toLower c =
     (if CHR ''A'' \<le> c \<and> c \<le> CHR ''Z'' then char_of (of_char c + (32::nat)) else c)"

fun wildcardMatch :: "string \<Rightarrow> string \<Rightarrow> bool" where
  "wildcardMatch [] [] = True"
| "wildcardMatch [] (c # cs) = False"
| "wildcardMatch (p # ps) [] = (p = CHR ''*'' \<and> wildcardMatch ps [])"
| "wildcardMatch (p # ps) (c # cs) =
     (if p = CHR ''*'' then wildcardMatch ps (c # cs) \<or> wildcardMatch (p # ps) cs
      else (p = CHR ''?'' \<or> toLower p = toLower c) \<and> wildcardMatch ps cs)"

definition matchesAny :: "string list \<Rightarrow> string \<Rightarrow> bool" where
  "matchesAny nameFilters n = list_ex (\<lambda>p. wildcardMatch p n) nameFilters"

text \<open>
  \<^verbatim>\<open>QDir::entryList()\<close> after \<^verbatim>\<open>setFilter(QDir::Files | QDir::Readable | QDir::NoSymLinks)\<close>
  and \<^verbatim>\<open>setNameFilters(nameFilters)\<close>: the names of the readable regular files that are
  neither symbolic links nor hidden (\<^verbatim>\<open>QDir::Hidden\<close> is not set) and match one of the
  name filters. The list is taken in the order of the directory; the code sorts it
  afterwards.
\<close>

definition entryList :: "dir_entry list \<Rightarrow> string list \<Rightarrow> string list" where
  "entryList entries nameFilters =
     map entryName
       (filter (\<lambda>e. isFile e \<and> isReadable e \<and> \<not> isSymLink e \<and> \<not> isHidden e
                    \<and> matchesAny nameFilters (entryName e)) entries)"

text \<open>
  What \<^verbatim>\<open>refreshMeadiaList\<close> reads from outside the object: the save path of the
  application settings and the directories of the file system (a path without a directory
  has no entries).
\<close>

record media_env =
  savePath :: string
  directory :: "string \<Rightarrow> dir_entry list"

text \<open>
  \<^verbatim>\<open>refreshMeadiaList()\<close>. The constructor of \<^verbatim>\<open>TyphoonMediaItem\<close> is in a header that is
  not part of the sources; a new item is taken to be unselected.
\<close>

definition refreshMeadiaList ::
  "build \<Rightarrow> media_env \<Rightarrow> TyphoonHQuickInterface \<Rightarrow> TyphoonHQuickInterface" where
  "refreshMeadiaList b env st =
     (let st1 = emit SelectedCountChanged ((clearMediaItems st)\<lparr>selectedCount := 0\<rparr>);
          (photoPath, nameFilters) =
             (if browseVideos st1
              then (savePath env @ ''/Video'', [''*'' @ YUNEEC_VIDEO_EXTENSION b])
              else (savePath env @ ''/Photo'', [''*.jpg'', ''*.JPG'']));
          list = entryList (directory env photoPath) nameFilters;
          st2 = foldl (\<lambda>s name. appendMediaItem \<lparr>fileName = name, selected = False\<rparr> s)
                  st1 list;
          st3 = st2\<lparr>mediaList := std_sort (\<lambda>a b. fileName a > fileName b) (mediaList st2)\<rparr>
      in emit MediaListChanged st3)"

text \<open>
  The reading of claim C7: the names of the directory entries that match one of the name
  filters.
\<close>

definition names_matching :: "dir_entry list \<Rightarrow> string list \<Rightarrow> string list" where
  "names_matching entries nameFilters =
     map entryName (filter (\<lambda>e. matchesAny nameFilters (entryName e)) entries)"

subsection \<open>Log rotation\<close>

text \<open>
  What the log rotation of \<^verbatim>\<open>init()\<close> uses of a \<^verbatim>\<open>QFileInfo\<close>: the path, the time of
  creation (milliseconds since the epoch) and the size in bytes.
\<close>

record QFileInfo =
  filePath :: string
  created :: int
  size_bytes :: int

definition created_greater_than :: "QFileInfo \<Rightarrow> QFileInfo \<Rightarrow> bool" where
  "created_greater_than f1 f2 = (created f1 > created f2)"

text \<open>
  The \<^verbatim>\<open>while\<close> loop: as long as the total exceeds 1 GB and the list is not empty, the
  first file of the list is removed from the file system and from the list. The file
  system is the set of the paths that exist; \<^verbatim>\<open>QFile::remove\<close> is taken to succeed.
\<close>

fun remove_logs ::
  "int \<Rightarrow> QFileInfo list \<Rightarrow> (string \<Rightarrow> bool) \<Rightarrow> int \<times> QFileInfo list \<times> (string \<Rightarrow> bool)" where
  "remove_logs totalLogSize [] files = (totalLogSize, [], files)"
| "remove_logs totalLogSize (l # logs) files =
     (if totalLogSize > 1024 * 1024 * 1024
      then remove_logs (totalLogSize - size_bytes l) logs (files(filePath l := False))
      else (totalLogSize, l # logs, files))"

text \<open>
  The block of \<^verbatim>\<open>init()\<close> that limits the stored logs, from the result of
  \<^verbatim>\<open>logDir.entryInfoList()\<close> on: it returns the list \<^verbatim>\<open>logs\<close> as the block leaves it and
  the file system. The sizes are added in a \<^verbatim>\<open>qint64\<close>, which the sizes of the files of
  a directory do not overflow.
\<close>

definition init_logs ::
  "QFileInfo list \<Rightarrow> (string \<Rightarrow> bool) \<Rightarrow> QFileInfo list \<times> (string \<Rightarrow> bool)" where
  "init_logs entryInfoList files =
     (let logs = std_sort created_greater_than entryInfoList
      in if length logs > 1
         then (let totalLogSize = foldl (\<lambda>t l. t + size_bytes l) 0 logs;
                   (t, logs', files') = remove_logs totalLogSize logs files
               in (logs', files'))
         else (logs, files))"

subsection \<open>Mission import\<close>

text \<open>
  \<^verbatim>\<open>QString::arg\<close> with an integer inserts its decimal digits; \<^verbatim>\<open>QFileInfo::fileName\<close>
  is the part of a path behind the last slash.
\<close>

fun decimal :: "nat \<Rightarrow> string" where
  "decimal n =
     (if n < 10 then [char_of (48 + n)]
      else decimal (n div 10) @ [char_of (48 + n mod 10)])"

declare decimal.simps [simp del]

definition fileNameOf :: "string \<Rightarrow> string" where
  "fileNameOf path = rev (takeWhile (\<lambda>c. c \<noteq> CHR ''/'') (rev path))"

text \<open>
  What the import reads from outside the object: whether a directory exists, the paths of
  the \<^verbatim>\<open>*.plan\<close> files a \<^verbatim>\<open>QDirIterator\<close> finds below a directory (in the order it
  yields them), the mission directory of the application settings, and whether
  \<^verbatim>\<open>QFile::copy\<close> from one path to another succeeds. \<open>percent cur total\<close> stands for
  \<^verbatim>\<open>(int)((float)cur / (float)total * 100.0f)\<close>, whose floating-point arithmetic is not
  modelled.
\<close>

record import_env =
  dir_exists :: "string \<Rightarrow> bool"
  plan_files :: "string \<Rightarrow> string list"
  missionSavePath :: string
  copy_succeeds :: "string \<Rightarrow> string \<Rightarrow> bool"
  percent :: "nat \<Rightarrow> nat \<Rightarrow> int"

definition exportMessage :: "string \<Rightarrow> TyphoonHQuickInterface \<Rightarrow> TyphoonHQuickInterface" where
  "exportMessage message st = emit CopyMessageChanged (st\<lparr>copyMessage := message\<rparr>)"

definition copyProgress ::
  "import_env \<Rightarrow> nat \<Rightarrow> nat \<Rightarrow> TyphoonHQuickInterface \<Rightarrow> TyphoonHQuickInterface" where
  "copyProgress env totalCount curCount st =
     emit UpdateProgressChanged
       (if totalCount = 0 then st\<lparr>updateProgress := 0\<rparr>
        else st\<lparr>updateProgress := percent env curCount totalCount\<rparr>)"

definition importMission :: "TyphoonHQuickInterface \<Rightarrow> TyphoonHQuickInterface" where
  "importMission st =
     (let st1 = emit CopyingFilesChanged (st\<lparr>copyingFiles := True\<rparr>)
      in st1\<lparr>timers := timers st1 @ [(10, Slot_importMissions)]\<rparr>)"

text \<open>
  The second loop of \<^verbatim>\<open>_importMissions()\<close>, over the files collected. A file of the same
  name in the mission directory is removed first (\<^verbatim>\<open>QFile::remove\<close> is taken to
  succeed); a failed copy ends the function. The events that \<^verbatim>\<open>processEvents\<close> may
  dispatch between two copies are not modelled.
\<close>

fun import_loop ::
  "import_env \<Rightarrow> nat \<Rightarrow> string list \<Rightarrow> nat \<Rightarrow> TyphoonHQuickInterface \<times> (string \<Rightarrow> bool)
   \<Rightarrow> (TyphoonHQuickInterface \<times> (string \<Rightarrow> bool)) loop_exit" where
  "import_loop env totalFiles [] curCount (st, files) = Fallthrough (st, files)"
| "import_loop env totalFiles (fi # fil) curCount (st, files) =
     (let output = missionSavePath env @ ''/'' @ fileNameOf fi;
          files1 = (if files output then files(output := False) else files)
      in if \<not> copy_succeeds env fi output
         then Returned
                (emit CopyingDoneChanged
                   (emit CopyingFilesChanged
                      ((exportMessage (''Error importing '' @ fi) st)
                         \<lparr>copyingFiles := False, copyingDone := True\<rparr>)),
                 files1)
         else import_loop env totalFiles fil (Suc curCount)
                (copyProgress env totalFiles (Suc curCount) st, files1(output := True)))"

definition sourcePath :: "build \<Rightarrow> string" where
  "sourcePath b = (if qt_debug b \<and> \<not> android b then ''/tmp'' else ''/storage/sdcard1'')"

text \<open>\<^verbatim>\<open>_importMissions()\<close>, the slot that the timer of \<open>importMission\<close> calls.\<close>

definition importMissions ::
  "build \<Rightarrow> import_env \<Rightarrow> TyphoonHQuickInterface \<times> (string \<Rightarrow> bool)
   \<Rightarrow> TyphoonHQuickInterface \<times> (string \<Rightarrow> bool)" where
  "importMissions b env sf =
     (case sf of (st, files) \<Rightarrow>
        if \<not> dir_exists env (sourcePath b)
        then (exportMessage
                ''Source path missing. Make sure you have a (FAT32 Formatted) microSD card loaded.''
                st, files)
        else
          (let st1 = exportMessage ''Importing mission files...'' st;
               fil = plan_files env (sourcePath b);
               totalFiles = length fil;
               st2 = copyProgress env totalFiles 0 st1
           in case import_loop env totalFiles fil 0 (st2, files) of
                Returned r \<Rightarrow> r
              | Fallthrough (st3, files3) \<Rightarrow>
                  (emit CopyingDoneChanged
                     (emit CopyingFilesChanged
                        ((exportMessage (decimal totalFiles @ '' files imported'') st3)
                           \<lparr>copyingFiles := False, copyingDone := True\<rparr>)),
                   files3)))"

subsection \<open>The firmware copy (\<^verbatim>\<open>TyphoonHFileCopy\<close>)\<close>

text \<open>\<^verbatim>\<open>#define READ_CHUNK_SIZE 1024 * 1024 * 4\<close>\<close>

definition READ_CHUNK_SIZE :: nat where
  "READ_CHUNK_SIZE = 1024 * 1024 * 4"

text \<open>
  The class holds the two paths \<^verbatim>\<open>_src\<close> and \<^verbatim>\<open>_dst\<close>. The file system maps a path to
  the bytes of the file there, if there is one.
\<close>

record TyphoonHFileCopy =
  src :: string
  dst :: string

type_synonym filesystem = "string \<Rightarrow> 8 word list option"

text \<open>
  The signals of the class; \<open>CopyProgress\<close> carries the percentage. What a run does is
  recorded as a list of events: the signals emitted, and the calls of \<^verbatim>\<open>inFile.read\<close>
  (bytes asked for, value returned) and \<^verbatim>\<open>outFile.write\<close> (bytes handed over, value
  returned).
\<close>

datatype copy_signal = CopyError string | CopyProgress int | CopyDone

datatype copy_event = Emit copy_signal | Read nat int | Write nat int

text \<open>
  The behaviour of the devices is given from outside. \<open>in_open\<close> and \<open>out_open\<close> say
  whether the two files can be opened (the input file must exist as well). The script has
  one entry for each turn of the loop: \<open>rd\<close> is negative when the read fails, and is
  otherwise the number of bytes the device delivers at most in that call; \<open>wr\<close> is
  negative when the write fails, and is otherwise the number of bytes the device accepts
  at most. \<open>progress_percent current total\<close> stands for
  \<^verbatim>\<open>(int)((double)current / (double)total * 100.0)\<close>, whose floating-point arithmetic is
  not modelled.
\<close>

record io_step =
  rd :: int
  wr :: int

record copy_env =
  in_open :: bool
  out_open :: bool
  script :: "io_step list"
  progress_percent :: "nat \<Rightarrow> nat \<Rightarrow> int"

text \<open>
  The state of the loop: the file system, the position of \<^verbatim>\<open>inFile\<close>, the counter
  \<^verbatim>\<open>current\<close> and the events so far. \<^verbatim>\<open>total\<close> (written \<open>total'\<close>) and \<^verbatim>\<open>current\<close> are
  \<^verbatim>\<open>uint64_t\<close>, which the size of a file does not overflow.
\<close>

record copy_state =
  fs :: filesystem
  in_pos :: nat
  current :: nat
  events :: "copy_event list"

definition file_bytes :: "filesystem \<Rightarrow> string \<Rightarrow> 8 word list" where
  "file_bytes f p = (case f p of Some bytes \<Rightarrow> bytes | None \<Rightarrow> [])"

definition atEnd :: "TyphoonHFileCopy \<Rightarrow> copy_state \<Rightarrow> bool" where
  "atEnd c st = (length (file_bytes (fs st) (src c)) \<le> in_pos st)"

text \<open>
  \<^verbatim>\<open>inFile.read(bytes.data(), READ_CHUNK_SIZE)\<close> returns -1 on an error and otherwise
  the number of bytes read: at most \<open>READ_CHUNK_SIZE\<close>, at most what is left of the file,
  and at most what the device delivers.
\<close>

definition inFile_read :: "TyphoonHFileCopy \<Rightarrow> io_step \<Rightarrow> copy_state \<Rightarrow> int" where
  "inFile_read c step st =
     (if rd step < 0 then - 1
      else min (rd step)
             (int (min READ_CHUNK_SIZE (length (file_bytes (fs st) (src c)) - in_pos st))))"

text \<open>
  \<^verbatim>\<open>outFile.write(bytes.data(), count)\<close> returns -1 on an error and otherwise the
  number of bytes written, at most \<^verbatim>\<open>count\<close> (here \<open>len\<close>).
\<close>

definition outFile_write :: "io_step \<Rightarrow> int \<Rightarrow> int" where
  "outFile_write step len = (if wr step < 0 then - 1 else min (wr step) len)"

text \<open>
  The three statements of both failure branches: \<^verbatim>\<open>emit copyError(message)\<close>,
  \<^verbatim>\<open>outFile.close()\<close>, \<^verbatim>\<open>outFile.remove()\<close> (taken to succeed).
\<close>

definition abort_copy :: "TyphoonHFileCopy \<Rightarrow> string \<Rightarrow> copy_state \<Rightarrow> copy_state" where
  "abort_copy c message st =
     st\<lparr>events := events st @ [Emit (CopyError message)], fs := (fs st)(dst c := None)\<rparr>"

text \<open>
  The \<^verbatim>\<open>while(!inFile.atEnd())\<close> loop. Each turn takes the next entry of the script; the
  result is \<open>None\<close> when the script is used up while the loop is still running. The write
  is only called when \<open>count\<close> is not 0.
\<close>

fun copy_loop ::
  "TyphoonHFileCopy \<Rightarrow> copy_env \<Rightarrow> nat \<Rightarrow> io_step list \<Rightarrow> copy_state
   \<Rightarrow> copy_state loop_exit option" where
  "copy_loop c env total' [] st = (if atEnd c st then Some (Fallthrough st) else None)"
| "copy_loop c env total' (step # rest) st =
     (if atEnd c st then Some (Fallthrough st)
      else
        (let count = inFile_read c step st;
             st1 = st\<lparr>events := events st @ [Read READ_CHUNK_SIZE count]\<rparr>
         in if count < 0
            then Some (Returned (abort_copy c ''Error reading firmware file.'' st1))
            else
              (let bytes = take (nat count) (drop (in_pos st) (file_bytes (fs st) (src c)));
                   st2 = st1\<lparr>in_pos := in_pos st + nat count\<rparr>;
                   written = outFile_write step count;
                   st3 = (if count \<noteq> 0
                          then st2\<lparr>fs := (fs st2)(dst c \<mapsto>
                                         file_bytes (fs st2) (dst c) @ take (nat written) bytes),
                                   events := events st2 @ [Write (nat count) written]\<rparr>
                          else st2)
               in if count \<noteq> 0 \<and> written \<noteq> count
                  then Some (Returned (abort_copy c ''Error writing firmware file.'' st3))
                  else copy_loop c env total' rest
                         (st3\<lparr>current := current st3 + nat count,
                              events := events st3 @
                                [Emit (CopyProgress
                                   (progress_percent env (current st3 + nat count) total'))]\<rparr>))))"

text \<open>
  The state of a turn of \<open>copy_loop\<close> after the read and, when bytes were read, the write
  (\<open>st3\<close> there), for the statements about the loop.
\<close>

definition after_write :: "TyphoonHFileCopy \<Rightarrow> io_step \<Rightarrow> copy_state \<Rightarrow> copy_state" where
  "after_write c step st =
     (let n = inFile_read c step st;
          st2 = st\<lparr>events := events st @ [Read READ_CHUNK_SIZE n], in_pos := in_pos st + nat n\<rparr>
      in if n \<noteq> 0
         then st2\<lparr>fs := (fs st2)(dst c \<mapsto> file_bytes (fs st2) (dst c) @
                         take (nat (outFile_write step n))
                           (take (nat n) (drop (in_pos st) (file_bytes (fs st) (src c))))),
                  events := events st2 @ [Write (nat n) (outFile_write step n)]\<rparr>
         else st2)"

text \<open>
  \<^verbatim>\<open>TyphoonHFileCopy::startCopy()\<close>: the file system and the events of the run, or
  \<open>None\<close> when the script is used up before the loop ends. Opening the output file
  \<^verbatim>\<open>WriteOnly\<close> creates or truncates it.
\<close>

definition startCopy ::
  "TyphoonHFileCopy \<Rightarrow> copy_env \<Rightarrow> filesystem \<Rightarrow> (filesystem \<times> copy_event list) option" where
  "startCopy c env f =
     (let total' = length (file_bytes f (src c))
      in if \<not> (in_open env \<and> f (src c) \<noteq> None)
         then Some (f, [Emit (CopyError ''Error opening firmware update file.'')])
         else if \<not> out_open env
         then Some (f, [Emit (CopyError ''Error opening firmware destination file.'')])
         else (case copy_loop c env total' (script env)
                      \<lparr>fs = f(dst c \<mapsto> []), in_pos = 0, current = 0, events = []\<rparr> of
                 None \<Rightarrow> None
               | Some (Returned st) \<Rightarrow> Some (fs st, events st)
               | Some (Fallthrough st) \<Rightarrow> Some (fs st, events st @ [Emit CopyDone])))"

text \<open>
  Properties of events: a call that failed (a read that returned a negative value, a write
  that did not return the number of bytes handed over), a call that stays within the
  chunk size, the messages of the \<open>CopyError\<close> signals of a run, and the number of bytes
  that the writes of a run were handed.
\<close>

fun io_failed :: "copy_event \<Rightarrow> bool" where
  "io_failed (Read n r) = (r < 0)"
| "io_failed (Write n r) = (r \<noteq> int n)"
| "io_failed (Emit s) = False"

fun chunked :: "copy_event \<Rightarrow> bool" where
  "chunked (Read n r) = (n = READ_CHUNK_SIZE \<and> r \<le> int READ_CHUNK_SIZE)"
| "chunked (Write n r) = (0 < n \<and> n \<le> READ_CHUNK_SIZE)"
| "chunked (Emit s) = True"

fun copy_errors :: "copy_event list \<Rightarrow> string list" where
  "copy_errors [] = []"
| "copy_errors (Emit (CopyError m) # es) = m # copy_errors es"
| "copy_errors (e # es) = copy_errors es"

fun written_bytes :: "copy_event list \<Rightarrow> nat" where
  "written_bytes [] = 0"
| "written_bytes (Write n r # es) = n + written_bytes es"
| "written_bytes (e # es) = written_bytes es"

subsection \<open>Examples\<close>

text \<open>
  The configuration used in the examples: the release build for the controller
  (\<^verbatim>\<open>__androidx86__\<close> defined, \<^verbatim>\<open>QT_DEBUG\<close> not), with the default delay of
  \<^verbatim>\<open>startScan\<close> taken to be 0 and \<^verbatim>\<open>.mp4\<close> for the video extension.
\<close>

definition controller_build :: build where
  "controller_build =
     \<lparr>androidx86 = True, android = True, qt_debug = False, startScan_default_delay = 0,
      YUNEEC_VIDEO_EXTENSION = ''.mp4''\<rparr>"

section \<open>Properties\<close>

subsection \<open>Media list accessors\<close>

text \<open>
  Claim C10. For every integer index, \<open>mediaItem\<close> is total: it returns the item at
  that position when \<open>0 \<le> index < mediaCount\<close> (the list is then non-empty and the position
  is inside the list, so nothing is read out of bounds), and it returns \<^verbatim>\<open>NULL\<close> for every
  negative index, for every index at or beyond \<open>mediaCount\<close>, and whenever the list is empty.
\<close>

theorem mediaItem_total:
  "(0 \<le> index \<and> index < mediaCount st \<longrightarrow>
      mediaList st \<noteq> [] \<and> nat index < length (mediaList st)
      \<and> mediaItem st index = Some (mediaList st ! nat index))
   \<and> (index < 0 \<longrightarrow> mediaItem st index = None)
   \<and> (mediaCount st \<le> index \<longrightarrow> mediaItem st index = None)
   \<and> (mediaList st = [] \<longrightarrow> mediaItem st index = None)"
  by (auto simp: mediaItem_def mediaCount_def)

theorem mediaItem_total_witness:
  "(0 \<le> (1::int)
    \<and> 1 < mediaCount (constructed\<lparr>mediaList := [\<lparr>fileName = ''b.jpg'', selected = False\<rparr>,
                                                \<lparr>fileName = ''a.jpg'', selected = False\<rparr>]\<rparr>))
   \<and> mediaItem (constructed\<lparr>mediaList := [\<lparr>fileName = ''b.jpg'', selected = False\<rparr>,
                                          \<lparr>fileName = ''a.jpg'', selected = False\<rparr>]\<rparr>) 1
       = Some \<lparr>fileName = ''a.jpg'', selected = False\<rparr>
   \<and> mediaItem (constructed\<lparr>mediaList := [\<lparr>fileName = ''b.jpg'', selected = False\<rparr>,
                                          \<lparr>fileName = ''a.jpg'', selected = False\<rparr>]\<rparr>) (- 1)
       = None
   \<and> mediaItem (constructed\<lparr>mediaList := [\<lparr>fileName = ''b.jpg'', selected = False\<rparr>,
                                          \<lparr>fileName = ''a.jpg'', selected = False\<rparr>]\<rparr>) 2
       = None
   \<and> mediaItem constructed 0 = None"
proof -
  define st where
    "st = constructed\<lparr>mediaList := [\<lparr>fileName = ''b.jpg'', selected = False\<rparr>,
                                     \<lparr>fileName = ''a.jpg'', selected = False\<rparr>]\<rparr>"
  have count: "mediaCount st = 2"
    by (simp add: st_def mediaCount_def)
  have empty: "mediaList constructed = []"
    by (simp add: constructed_def)
  have second: "mediaList st ! nat 1 = \<lparr>fileName = ''a.jpg'', selected = False\<rparr>"
    by (simp add: st_def)
  have "mediaItem st 1 = Some \<lparr>fileName = ''a.jpg'', selected = False\<rparr>"
    using mediaItem_total [of 1 st] count second by simp
  moreover have "mediaItem st (- 1) = None"
    using mediaItem_total [of "- 1" st] by simp
  moreover have "mediaItem st 2 = None"
    using mediaItem_total [of 2 st] count by simp
  moreover have "mediaItem constructed 0 = None"
    using mediaItem_total [of 0 constructed] empty by simp
  ultimately show ?thesis
    using count unfolding st_def by simp
qed

subsection \<open>Thermal opacity\<close>

lemma clamp_cases:
  assumes "v \<noteq> NaN"
  shows "(if dgreater (if dless v (Finite 0) then Finite 0 else v) (Finite 100)
          then Finite 100 else (if dless v (Finite 0) then Finite 0 else v))
         = (if dless v (Finite 0) then Finite 0
            else if dgreater v (Finite 100) then Finite 100 else v)"
  by (cases v) (auto simp: dgreater_def)

lemma clamp_in_range:
  assumes "v \<noteq> NaN"
  shows "in_opacity_range (if dless v (Finite 0) then Finite 0
                           else if dgreater v (Finite 100) then Finite 100 else v)"
  using assms by (cases v) (auto simp: dgreater_def in_opacity_range_def)

lemma setThermalOpacity_unfold:
  assumes "v \<noteq> NaN"
  shows "setThermalOpacity v st =
     (let val = (if dless v (Finite 0) then Finite 0
                 else if dgreater v (Finite 100) then Finite 100 else v)
      in if dneq (thermalOpacity st) val
         then emit ThermalOpacityChanged
                (st\<lparr>thermalOpacity := val,
                    settings := (settings st)(([], kThermalOpacity) \<mapsto> VDouble val)\<rparr>)
         else st)"
  unfolding setThermalOpacity_def Let_def clamp_cases [OF assms] by simp

text \<open>
  Claim C9, as stated, at the input NaN: both comparisons of the clamp are false and
  \<^verbatim>\<open>_thermalOpacity != val\<close> is true, so the NaN is stored in the member and written to
  the settings; it does not lie in \<^verbatim>\<open>[0.0, 100.0]\<close>.
\<close>

theorem setThermalOpacity_NaN_counterexample:
  "\<not> in_opacity_range (thermalOpacity (setThermalOpacity NaN constructed))
   \<and> settings (setThermalOpacity NaN constructed) ([], kThermalOpacity) = Some (VDouble NaN)"
  by (simp add: setThermalOpacity_def constructed_def emit_def dgreater_def dneq_def
      in_opacity_range_def Let_def)

text \<open>
  Claim C9, amended. For every input value \<open>v\<close> that is not a NaN (the infinities
  included), after \<open>setThermalOpacity v\<close> the member \<open>thermalOpacity\<close> lies in
  \<^verbatim>\<open>[0.0, 100.0]\<close>: it is 0 when \<open>v\<close> is below 0, 100 when \<open>v\<close> is above 100, and \<open>v\<close>
  otherwise. When the call changes the settings store, the value written under
  \<open>kThermalOpacity\<close> is the one stored in the member, so it lies in the interval. When the
  clamped value equals the current one, the object, the settings and the signals are all
  unchanged.
\<close>

theorem setThermalOpacity_clamps:
  "v \<noteq> NaN \<longrightarrow>
     in_opacity_range (thermalOpacity (setThermalOpacity v st))
   \<and> (dless v (Finite 0) \<longrightarrow> thermalOpacity (setThermalOpacity v st) = Finite 0)
   \<and> (dgreater v (Finite 100) \<longrightarrow> thermalOpacity (setThermalOpacity v st) = Finite 100)
   \<and> (in_opacity_range v \<longrightarrow> thermalOpacity (setThermalOpacity v st) = v)
   \<and> (settings (setThermalOpacity v st) \<noteq> settings st \<longrightarrow>
        settings (setThermalOpacity v st)
          = (settings st)(([], kThermalOpacity) \<mapsto>
               VDouble (thermalOpacity (setThermalOpacity v st))))
   \<and> (thermalOpacity st = thermalOpacity (setThermalOpacity v st) \<longrightarrow>
        setThermalOpacity v st = st)"
proof
  assume v: "v \<noteq> NaN"
  define c where
    "c = (if dless v (Finite 0) then Finite 0
          else if dgreater v (Finite 100) then Finite 100 else v)"
  have range: "in_opacity_range c"
    unfolding c_def by (rule clamp_in_range [OF v])
  have c_not_NaN: "c \<noteq> NaN"
    using range by (auto simp: in_opacity_range_def)
  have step: "setThermalOpacity v st =
      (if dneq (thermalOpacity st) c
       then emit ThermalOpacityChanged
              (st\<lparr>thermalOpacity := c,
                  settings := (settings st)(([], kThermalOpacity) \<mapsto> VDouble c)\<rparr>)
       else st)"
    unfolding setThermalOpacity_unfold [OF v] c_def Let_def by simp
  have stored: "thermalOpacity (setThermalOpacity v st) = c"
    using c_not_NaN by (auto simp: step dneq_def emit_def)
  have low: "dless v (Finite 0) \<longrightarrow> c = Finite 0"
    by (simp add: c_def)
  have high: "dgreater v (Finite 100) \<longrightarrow> c = Finite 100"
    using v by (cases v) (auto simp: c_def dgreater_def)
  have mid: "in_opacity_range v \<longrightarrow> c = v"
    by (cases v) (auto simp: c_def dgreater_def in_opacity_range_def)
  have written: "settings (setThermalOpacity v st) \<noteq> settings st
      \<longrightarrow> settings (setThermalOpacity v st)
            = (settings st)(([], kThermalOpacity) \<mapsto> VDouble c)"
    by (auto simp: step emit_def)
  have same: "thermalOpacity st = c \<longrightarrow> setThermalOpacity v st = st"
    using c_not_NaN by (auto simp: step dneq_def)
  show "in_opacity_range (thermalOpacity (setThermalOpacity v st))
   \<and> (dless v (Finite 0) \<longrightarrow> thermalOpacity (setThermalOpacity v st) = Finite 0)
   \<and> (dgreater v (Finite 100) \<longrightarrow> thermalOpacity (setThermalOpacity v st) = Finite 100)
   \<and> (in_opacity_range v \<longrightarrow> thermalOpacity (setThermalOpacity v st) = v)
   \<and> (settings (setThermalOpacity v st) \<noteq> settings st \<longrightarrow>
        settings (setThermalOpacity v st)
          = (settings st)(([], kThermalOpacity) \<mapsto>
               VDouble (thermalOpacity (setThermalOpacity v st))))
   \<and> (thermalOpacity st = thermalOpacity (setThermalOpacity v st) \<longrightarrow>
        setThermalOpacity v st = st)"
    unfolding stored using range low high mid written same by blast
qed

theorem setThermalOpacity_clamps_witness:
  "Finite 150 \<noteq> NaN
   \<and> dgreater (Finite 150) (Finite 100)
   \<and> thermalOpacity (setThermalOpacity (Finite 150) constructed) = Finite 100
   \<and> settings (setThermalOpacity (Finite 150) constructed) ([], kThermalOpacity)
       = Some (VDouble (Finite 100))"
proof -
  have a: "Finite 150 \<noteq> NaN"
    by simp
  have b: "dgreater (Finite 150) (Finite 100)"
    by (simp add: dgreater_def)
  have c: "settings (setThermalOpacity (Finite 150) constructed) \<noteq> settings constructed"
  proof
    assume "settings (setThermalOpacity (Finite 150) constructed) = settings constructed"
    then have "settings (setThermalOpacity (Finite 150) constructed) ([], kThermalOpacity)
               = settings constructed ([], kThermalOpacity)"
      by simp
    then show False
      by (simp add: constructed_def setThermalOpacity_def emit_def dgreater_def dneq_def
          Let_def)
  qed
  have d: "thermalOpacity (setThermalOpacity (Finite 150) constructed) = Finite 100
        \<and> settings (setThermalOpacity (Finite 150) constructed)
            = (settings constructed)(([], kThermalOpacity) \<mapsto>
                 VDouble (thermalOpacity (setThermalOpacity (Finite 150) constructed)))"
    using setThermalOpacity_clamps [of "Finite 150" constructed] a b c by metis
  then have "settings (setThermalOpacity (Finite 150) constructed) ([], kThermalOpacity)
             = Some (VDouble (Finite 100))"
    by simp
  with a b d show ?thesis
    by blast
qed

subsection \<open>The WiFi network list\<close>

lemma mset_sort_insert: "mset (sort_insert lt x ys) = add_mset x (mset ys)"
  by (induction ys) auto

lemma mset_std_sort: "mset (std_sort lt xs) = mset xs"
  unfolding std_sort_def by (induction xs) (auto simp: mset_sort_insert)

lemma set_std_sort: "set (std_sort lt xs) = set xs"
  using mset_std_sort [of lt xs] by (metis set_mset_mset)

lemma distinct_map_std_sort: "distinct (map f (std_sort lt xs)) = distinct (map f xs)"
proof -
  have "mset (map f (std_sort lt xs)) = mset (map f xs)"
    by (simp add: mset_std_sort)
  then show ?thesis
    by (rule mset_eq_imp_distinct_iff)
qed

lemma sorted_sort_insert:
  fixes f :: "'a \<Rightarrow> 'k::linorder"
  assumes "sorted_wrt (\<lambda>a b. f a \<ge> f b) ys"
  shows "sorted_wrt (\<lambda>a b. f a \<ge> f b) (sort_insert (\<lambda>a b. f a > f b) x ys)"
  using assms
proof (induction ys)
  case Nil
  then show ?case by simp
next
  case (Cons y ys)
  have "set (sort_insert (\<lambda>a b. f a > f b) x ys) = insert x (set ys)"
    using mset_sort_insert [of "\<lambda>a b. f a > f b" x ys] by (metis set_mset_mset set_mset_add_mset_insert)
  with Cons show ?case
    by (auto simp: less_imp_le)
qed

lemma sorted_std_sort:
  fixes f :: "'a \<Rightarrow> 'k::linorder"
  shows "sorted_wrt (\<lambda>a b. f a \<ge> f b) (std_sort (\<lambda>a b. f a > f b) xs)"
  unfolding std_sort_def by (induction xs) (auto intro: sorted_sort_insert)

lemma findSsid_None: "(findSsid n r l = None) = (n \<notin> ssid ` set l)"
  by (induction l) auto

lemma findSsid_Some:
  assumes "findSsid n r l = Some u" and "distinct (map ssid l)"
  shows "u = map (\<lambda>x. if ssid x = n then x\<lparr>rssi := r\<rparr> else x) l"
  using assms
proof (induction l arbitrary: u)
  case Nil
  then show ?case by simp
next
  case (Cons s rest)
  show ?case
  proof (cases "ssid s = n")
    case True
    then have "n \<notin> ssid ` set rest"
      using Cons.prems(2) by auto
    then have "map (\<lambda>x. if ssid x = n then x\<lparr>rssi := r\<rparr> else x) rest = rest"
      by (induction rest) auto
    with True Cons.prems(1) show ?thesis by auto
  next
    case False
    with Cons show ?thesis by auto
  qed
qed


lemma ssidList_emit [simp]: "ssidList (emit s st) = ssidList st"
  by (simp add: emit_def)

lemma newSSID_known:
  assumes "distinct (map ssid (ssidList st))"
    and "\<forall>x \<in> set (ssidList st). qt_debug b \<or> camera_ssid (ssid x)"
    and "n \<in> ssid ` set (ssidList st)"
  shows "ssidList (newSSID b n r st)
           = map (\<lambda>x. if ssid x = n then x\<lparr>rssi := r\<rparr> else x) (ssidList st)"
proof -
  have ok: "qt_debug b \<or> camera_ssid n"
    using assms(2,3) by auto
  obtain u where u: "findSsid n r (ssidList st) = Some u"
    using assms(3) findSsid_None [of n r "ssidList st"] by auto
  have "u = map (\<lambda>x. if ssid x = n then x\<lparr>rssi := r\<rparr> else x) (ssidList st)"
    by (rule findSsid_Some [OF u assms(1)])
  then show ?thesis
    using ok u by (simp add: newSSID_def)
qed

lemma newSSID_new:
  assumes "n \<notin> ssid ` set (ssidList st)" and "qt_debug b \<or> camera_ssid n"
  shows "ssidList (newSSID b n r st)
           = std_sort compareRSSI (ssidList st @ [\<lparr>ssid = n, rssi = r\<rparr>])"
  using assms findSsid_None [of n r "ssidList st"] by (simp add: newSSID_def)

lemma newSSID_ignored:
  assumes "\<not> (qt_debug b \<or> camera_ssid n)"
  shows "newSSID b n r st = st"
  using assms by (simp add: newSSID_def)

lemma newSSID_inv:
  assumes "distinct (map ssid (ssidList st))"
    and "\<forall>x \<in> set (ssidList st). qt_debug b \<or> camera_ssid (ssid x)"
  shows "distinct (map ssid (ssidList (newSSID b n r st)))
         \<and> (\<forall>x \<in> set (ssidList (newSSID b n r st)). qt_debug b \<or> camera_ssid (ssid x))"
proof (cases "qt_debug b \<or> camera_ssid n")
  case False
  then show ?thesis
    using assms by (simp add: newSSID_ignored)
next
  case ok: True
  show ?thesis
  proof (cases "n \<in> ssid ` set (ssidList st)")
    case True
    have same: "map ssid (map (\<lambda>x. if ssid x = n then x\<lparr>rssi := r\<rparr> else x) (ssidList st))
                = map ssid (ssidList st)"
      by (induction "ssidList st") auto
    show ?thesis
      unfolding newSSID_known [OF assms True]
      using assms same by (auto simp del: map_map)
  next
    case False
    show ?thesis
      unfolding newSSID_new [OF False ok]
      using assms False ok by (auto simp: distinct_map_std_sort set_std_sort)
  qed
qed

lemma foldl_newSSID_inv:
  assumes "distinct (map ssid (ssidList st))"
    and "\<forall>x \<in> set (ssidList st). qt_debug b \<or> camera_ssid (ssid x)"
  shows "distinct (map ssid (ssidList (foldl (\<lambda>s (n, r). newSSID b n r s) st calls)))
         \<and> (\<forall>x \<in> set (ssidList (foldl (\<lambda>s (n, r). newSSID b n r s) st calls)).
               qt_debug b \<or> camera_ssid (ssid x))"
  using assms
proof (induction calls arbitrary: st)
  case Nil
  then show ?case by simp
next
  case (Cons c calls)
  obtain n r where c: "c = (n, r)"
    by (cases c)
  show ?case
    using Cons.IH [of "newSSID b n r st"] newSSID_inv [OF Cons.prems, of n r]
    by (simp add: c)
qed

lemma startScan_inv:
  "distinct (map ssid (ssidList (startScan b delay st)))
   \<and> (\<forall>x \<in> set (ssidList (startScan b delay st)). qt_debug b \<or> camera_ssid (ssid x))"
proof -
  define st1 where "st1 = emit SsidListChanged ((clearSSids st)\<lparr>scanEnabled := True\<rparr>)"
  have empty: "ssidList st1 = []"
    by (simp add: st1_def clearSSids_def)
  show ?thesis
  proof (cases "androidx86 b")
    case True
    then have "ssidList (startScan b delay st) = []"
      using empty by (simp add: startScan_def Let_def scanWifi_def flip: st1_def)
    then show ?thesis by simp
  next
    case False
    define demo :: "(string \<times> int) list" where
      "demo = [(''Some SSID'', 0), (''Another SSID'', - 10), (''Yet Another SSID'', - 20),
               (''More SSID'', - 30), (''CIA Headquarters'', - 40),
               (''Trump Putin Direct'', - 50), (''Short'', - 60),
               (''A Whole Lot Longer and Useless'', - 90)]"
    have "startScan b delay st = foldl (\<lambda>s (n, r). newSSID b n r s) st1 demo"
      using False unfolding startScan_def Let_def st1_def demo_def by simp
    then show ?thesis
      using foldl_newSSID_inv [of st1 b demo] empty by simp
  qed
qed

text \<open>
  Claim C8. Every SSID appears at most once in the WiFi network list: after \<open>startScan\<close>
  and any sequence of \<open>newSSID\<close> calls the SSIDs of the list are pairwise distinct, and a
  further report of an SSID that is already in the list appends nothing: the list keeps
  its items and their order, and the item with that SSID gets the reported RSSI.
\<close>

theorem ssid_unique:
  "distinct (map ssid (ssidList (foldl (\<lambda>s (n, r). newSSID b n r s)
                                   (startScan b delay st) calls)))
   \<and> (\<forall>n r. n \<in> ssid ` set (ssidList (foldl (\<lambda>s (n, r). newSSID b n r s)
                                           (startScan b delay st) calls)) \<longrightarrow>
          ssidList (newSSID b n r (foldl (\<lambda>s (n, r). newSSID b n r s)
                                      (startScan b delay st) calls))
            = map (\<lambda>x. if ssid x = n then x\<lparr>rssi := r\<rparr> else x)
                (ssidList (foldl (\<lambda>s (n, r). newSSID b n r s)
                             (startScan b delay st) calls)))"
proof -
  define S where "S = foldl (\<lambda>s (n, r). newSSID b n r s) (startScan b delay st) calls"
  have inv: "distinct (map ssid (ssidList S))"
      "\<forall>x \<in> set (ssidList S). qt_debug b \<or> camera_ssid (ssid x)"
    unfolding S_def using foldl_newSSID_inv startScan_inv by blast+
  show ?thesis
    unfolding S_def [symmetric] using inv newSSID_known [OF inv] by blast
qed

theorem ssid_unique_witness:
  "''E90_B'' \<in> ssid ` set (ssidList (foldl (\<lambda>s (n, r). newSSID controller_build n r s)
                                  (startScan controller_build 0 constructed)
                                  [(''E90_A'', - 40), (''E90_B'', - 50), (''E90_A'', - 42)]))
   \<and> ssidList (foldl (\<lambda>s (n, r). newSSID controller_build n r s)
                 (startScan controller_build 0 constructed)
                 [(''E90_A'', - 40), (''E90_B'', - 50), (''E90_A'', - 42)])
       = [\<lparr>ssid = ''E90_A'', rssi = - 42\<rparr>, \<lparr>ssid = ''E90_B'', rssi = - 50\<rparr>]
   \<and> ssidList (newSSID controller_build ''E90_B'' (- 45)
                 (foldl (\<lambda>s (n, r). newSSID controller_build n r s)
                    (startScan controller_build 0 constructed)
                    [(''E90_A'', - 40), (''E90_B'', - 50), (''E90_A'', - 42)]))
       = [\<lparr>ssid = ''E90_A'', rssi = - 42\<rparr>, \<lparr>ssid = ''E90_B'', rssi = - 45\<rparr>]"
proof -
  define S where
    "S = foldl (\<lambda>s (n, r). newSSID controller_build n r s)
           (startScan controller_build 0 constructed)
           [(''E90_A'', - 40), (''E90_B'', - 50), (''E90_A'', - 42)]"
  have list: "ssidList S = [\<lparr>ssid = ''E90_A'', rssi = - 42\<rparr>, \<lparr>ssid = ''E90_B'', rssi = - 50\<rparr>]"
    by (simp add: S_def controller_build_def startScan_def constructed_def clearSSids_def
        emit_def scanWifi_def newSSID_def camera_ssid_def startsWith_def std_sort_def
        compareRSSI_def Let_def)
  have known: "''E90_B'' \<in> ssid ` set (ssidList S)"
    by (simp add: list)
  have "ssidList (newSSID controller_build ''E90_B'' (- 45) S)
          = map (\<lambda>x. if ssid x = ''E90_B'' then x\<lparr>rssi := - 45\<rparr> else x) (ssidList S)"
    using ssid_unique [of controller_build 0 constructed
        "[(''E90_A'', - 40), (''E90_B'', - 50), (''E90_A'', - 42)]"] known
    unfolding S_def [symmetric] by blast
  then have "ssidList (newSSID controller_build ''E90_B'' (- 45) S)
          = [\<lparr>ssid = ''E90_A'', rssi = - 42\<rparr>, \<lparr>ssid = ''E90_B'', rssi = - 45\<rparr>]"
    by (simp add: list)
  with known list show ?thesis
    unfolding S_def by blast
qed

text \<open>
  The branch of \<open>newSSID\<close> that appends does leave the list in descending order of RSSI,
  whatever the order was before.
\<close>

lemma newSSID_append_sorted:
  assumes "n \<notin> ssid ` set (ssidList st)" and "qt_debug b \<or> camera_ssid n"
  shows "sorted_wrt (\<lambda>a b. rssi a \<ge> rssi b) (ssidList (newSSID b n r st))"
proof -
  have cmp: "compareRSSI = (\<lambda>a b. rssi a > rssi b)"
    by (simp add: compareRSSI_def fun_eq_iff)
  show ?thesis
    unfolding newSSID_new [OF assms] cmp by (rule sorted_std_sort)
qed

text \<open>
  Claim C3 says that the list is in descending order of RSSI after every \<open>newSSID\<close>,
  also when the call updates a known SSID. The code sorts only after appending. On the
  controller, after \<open>startScan\<close>, the reports \<^verbatim>\<open>E90_A\<close> at -40, \<^verbatim>\<open>E90_B\<close> at -50 and
  \<^verbatim>\<open>E90_B\<close> again at -30 leave \<^verbatim>\<open>E90_A\<close> (-40) in front of \<^verbatim>\<open>E90_B\<close> (-30): the list
  is not in descending order.
\<close>

theorem newSSID_update_keeps_stale_order:
  "ssidList (foldl (\<lambda>s (n, r). newSSID controller_build n r s)
               (startScan controller_build 0 constructed)
               [(''E90_A'', - 40), (''E90_B'', - 50), (''E90_B'', - 30)])
     = [\<lparr>ssid = ''E90_A'', rssi = - 40\<rparr>, \<lparr>ssid = ''E90_B'', rssi = - 30\<rparr>]
   \<and> \<not> sorted_wrt (\<lambda>a b. rssi a \<ge> rssi b)
         (ssidList (foldl (\<lambda>s (n, r). newSSID controller_build n r s)
                      (startScan controller_build 0 constructed)
                      [(''E90_A'', - 40), (''E90_B'', - 50), (''E90_B'', - 30)]))"
  by (simp add: controller_build_def startScan_def constructed_def clearSSids_def
      emit_def scanWifi_def newSSID_def camera_ssid_def startsWith_def std_sort_def
      compareRSSI_def Let_def)

subsection \<open>The WiFi credential map\<close>

lemma fold_setValue:
  assumes "distinct (map fst l)"
  shows "List.fold (\<lambda>(k, v) s. if k \<noteq> [] then s((g, k) \<mapsto> VString v) else s) l s0 (g', k')
         = (if g' = g \<and> k' \<noteq> [] \<and> k' \<in> fst ` set l
            then map_option VString (map_of l k') else s0 (g', k'))"
  using assms
proof (induction l arbitrary: s0)
  case Nil
  then show ?case by simp
next
  case (Cons e l)
  obtain k v where e: "e = (k, v)"
    by (cases e)
  have fresh: "k \<notin> fst ` set l" and dist: "distinct (map fst l)"
    using Cons.prems by (auto simp: e)
  show ?case
    using fresh by (auto simp: e Cons.IH [OF dist])
qed

lemma saveWifiConfigurations_settings:
  "settings (saveWifiConfigurations st) (g, k)
     = (if g = kWifiConfig
        then (if k = [] then None else map_option VString (RBT.lookup (configurations st) k))
        else settings st (g, k))"
proof -
  have keys: "(k \<in> fst ` set (RBT.entries (configurations st)))
              = (RBT.lookup (configurations st) k \<noteq> None)"
    by (metis RBT.keys_entries RBT.lookup_keys domIff image_iff fst_conv prod.collapse RBT.keys_def_alt set_map)
  show ?thesis
    unfolding saveWifiConfigurations_def
    by (auto simp: RBT.fold_fold fold_setValue [OF RBT.distinct_entries] keys remove_group_def)
qed

lemma saveWifiConfigurations_other [simp]:
  "configurations (saveWifiConfigurations st) = configurations st"
  "bindingWiFi (saveWifiConfigurations st) = bindingWiFi st"
  "scanEnabled (saveWifiConfigurations st) = scanEnabled st"
  "timers (saveWifiConfigurations st) = timers st"
  "jni_calls (saveWifiConfigurations st) = jni_calls st"
  "emitted (saveWifiConfigurations st) = emitted st"
  by (simp_all add: saveWifiConfigurations_def)

lemma newSSID_frame:
  "configurations (newSSID b n r st) = configurations st"
  "settings (newSSID b n r st) = settings st"
  "bindingWiFi (newSSID b n r st) = bindingWiFi st"
  "scanEnabled (newSSID b n r st) = scanEnabled st"
  by (simp_all add: newSSID_def emit_def split: option.split)

lemma foldl_newSSID_frame:
  "configurations (foldl (\<lambda>s (n, r). newSSID b n r s) st calls) = configurations st
   \<and> settings (foldl (\<lambda>s (n, r). newSSID b n r s) st calls) = settings st
   \<and> bindingWiFi (foldl (\<lambda>s (n, r). newSSID b n r s) st calls) = bindingWiFi st
   \<and> scanEnabled (foldl (\<lambda>s (n, r). newSSID b n r s) st calls) = scanEnabled st"
proof (induction calls arbitrary: st)
  case Nil
  then show ?case by simp
next
  case (Cons c calls)
  obtain n r where c: "c = (n, r)"
    by (cases c)
  show ?case
    using Cons.IH [of "newSSID b n r st"] by (simp add: c newSSID_frame)
qed

lemma startScan_frame:
  "configurations (startScan b d st) = configurations st"
  "settings (startScan b d st) = settings st"
  "bindingWiFi (startScan b d st) = bindingWiFi st"
  "scanEnabled (startScan b d st)"
proof -
  define st1 where "st1 = emit SsidListChanged ((clearSSids st)\<lparr>scanEnabled := True\<rparr>)"
  define demo :: "(string \<times> int) list" where
    "demo = [(''Some SSID'', 0), (''Another SSID'', - 10), (''Yet Another SSID'', - 20),
             (''More SSID'', - 30), (''CIA Headquarters'', - 40),
             (''Trump Putin Direct'', - 50), (''Short'', - 60),
             (''A Whole Lot Longer and Useless'', - 90)]"
  have st1: "configurations st1 = configurations st" "settings st1 = settings st"
      "bindingWiFi st1 = bindingWiFi st" "scanEnabled st1"
    by (simp_all add: st1_def emit_def clearSSids_def)
  have unfold: "startScan b d st =
      (if androidx86 b
       then (if d \<noteq> 0 then st1\<lparr>timers := timers st1 @ [(d, Slot_scanWifi)]\<rparr>
             else scanWifi b st1)
       else foldl (\<lambda>s (n, r). newSSID b n r s) st1 demo)"
    unfolding startScan_def Let_def st1_def demo_def by simp
  show "configurations (startScan b d st) = configurations st"
      "settings (startScan b d st) = settings st"
      "bindingWiFi (startScan b d st) = bindingWiFi st"
      "scanEnabled (startScan b d st)"
    unfolding unfold using st1 foldl_newSSID_frame [of b st1 demo]
    by (simp_all add: scanWifi_def emit_def)
qed

lemma startScan_androidx86:
  assumes "androidx86 b"
  shows "ssidList (startScan b d st) = []"
    and "d = 0 \<Longrightarrow> scanningWiFi (startScan b d st)
                  \<and> jni_calls (startScan b d st) = jni_calls st @ [''startWifiScan'']"
    and "d \<noteq> 0 \<Longrightarrow> timers (startScan b d st) = timers st @ [(d, Slot_scanWifi)]"
  using assms by (simp_all add: startScan_def Let_def scanWifi_def emit_def clearSSids_def)

text \<open>
  Claim C4. After \<open>authenticationError\<close> the credential map is the old one without the
  entry of the current SSID, every other entry unchanged. When that entry was present, the
  group \<open>kWifiConfig\<close> of the settings store has been rewritten to hold exactly the entries
  of the new map with a non-empty key, and the other groups are unchanged; when it was
  absent, the settings store is unchanged. \<open>bindingWiFi\<close> is false, and a scan has been
  restarted: \<open>scanEnabled\<close> is true and, on the controller, the list is cleared and the scan
  is started at once (default delay 0) or a timer for \<open>scanWifi\<close> is started.
\<close>

theorem authenticationError_prunes:
  "RBT.lookup (configurations (authenticationError b st))
     = (RBT.lookup (configurations st))(ssid' st := None)
   \<and> (RBT.lookup (configurations st) (ssid' st) \<noteq> None \<longrightarrow>
        (\<forall>g k. settings (authenticationError b st) (g, k)
           = (if g = kWifiConfig
              then (if k = [] then None
                    else map_option VString
                           (RBT.lookup (configurations (authenticationError b st)) k))
              else settings st (g, k))))
   \<and> (RBT.lookup (configurations st) (ssid' st) = None \<longrightarrow>
        settings (authenticationError b st) = settings st)
   \<and> \<not> bindingWiFi (authenticationError b st)
   \<and> scanEnabled (authenticationError b st)
   \<and> (androidx86 b \<longrightarrow>
        ssidList (authenticationError b st) = []
        \<and> (if startScan_default_delay b = 0
           then scanningWiFi (authenticationError b st)
                \<and> jni_calls (authenticationError b st) = jni_calls st @ [''startWifiScan'']
           else timers (authenticationError b st)
                = timers st @ [(startScan_default_delay b, Slot_scanWifi)]))"
proof -
  define st1 where
    "st1 = (if RBT.lookup (configurations st) (ssid' st) \<noteq> None
            then saveWifiConfigurations
                   (st\<lparr>configurations := RBT.delete (ssid' st) (configurations st)\<rparr>)
            else st)"
  define st4 where
    "st4 = emit AuthenticationError
             (emit ConnectedSSIDChanged (emit BindingWiFiChanged (st1\<lparr>bindingWiFi := False\<rparr>)))"
  have run: "authenticationError b st = startScan b (startScan_default_delay b) st4"
    unfolding authenticationError_def Let_def st4_def st1_def by simp
  have st4: "configurations st4 = configurations st1" "settings st4 = settings st1"
      "\<not> bindingWiFi st4" "timers st4 = timers st1" "jni_calls st4 = jni_calls st1"
    by (simp_all add: st4_def emit_def)
  have st1_other: "timers st1 = timers st" "jni_calls st1 = jni_calls st"
    by (simp_all add: st1_def)
  have cfg1: "RBT.lookup (configurations st1) = (RBT.lookup (configurations st))(ssid' st := None)"
    by (auto simp: st1_def)
  have set1: "RBT.lookup (configurations st) (ssid' st) \<noteq> None \<Longrightarrow>
      settings st1 (g, k)
        = (if g = kWifiConfig
           then (if k = [] then None
                 else map_option VString (RBT.lookup (configurations st1) k))
           else settings st (g, k))" for g k
    by (simp add: st1_def saveWifiConfigurations_settings)
  have set1': "RBT.lookup (configurations st) (ssid' st) = None \<Longrightarrow> settings st1 = settings st"
    by (simp add: st1_def)
  have scan: "androidx86 b \<Longrightarrow>
        ssidList (authenticationError b st) = []
        \<and> (if startScan_default_delay b = 0
           then scanningWiFi (authenticationError b st)
                \<and> jni_calls (authenticationError b st) = jni_calls st @ [''startWifiScan'']
           else timers (authenticationError b st)
                = timers st @ [(startScan_default_delay b, Slot_scanWifi)])"
    unfolding run using startScan_androidx86 [of b "startScan_default_delay b" st4]
    by (simp add: st4 st1_other)
  have c1: "RBT.lookup (configurations (authenticationError b st))
              = (RBT.lookup (configurations st))(ssid' st := None)"
    by (simp add: run startScan_frame st4 cfg1)
  have c2: "RBT.lookup (configurations st) (ssid' st) \<noteq> None \<longrightarrow>
        (\<forall>g k. settings (authenticationError b st) (g, k)
           = (if g = kWifiConfig
              then (if k = [] then None
                    else map_option VString
                           (RBT.lookup (configurations (authenticationError b st)) k))
              else settings st (g, k)))"
    using set1 by (simp add: run startScan_frame st4)
  have c3: "RBT.lookup (configurations st) (ssid' st) = None \<longrightarrow>
        settings (authenticationError b st) = settings st"
    using set1' by (simp add: run startScan_frame st4)
  have c4: "\<not> bindingWiFi (authenticationError b st)"
    by (simp add: run startScan_frame st4)
  have c5: "scanEnabled (authenticationError b st)"
    by (simp add: run startScan_frame)
  have c6: "androidx86 b \<longrightarrow>
        ssidList (authenticationError b st) = []
        \<and> (if startScan_default_delay b = 0
           then scanningWiFi (authenticationError b st)
                \<and> jni_calls (authenticationError b st) = jni_calls st @ [''startWifiScan'']
           else timers (authenticationError b st)
                = timers st @ [(startScan_default_delay b, Slot_scanWifi)])"
    using scan by blast
  show ?thesis
    by (intro conjI c1 c2 c3 c4 c5 c6)
qed


theorem authenticationError_prunes_witness:
  "RBT.lookup (configurations (constructed\<lparr>bindingWiFi := True, ssid' := ''E90_A'',
       configurations := RBT.insert ''E90_A'' ''secret''
                           (RBT.insert ''E90_B'' ''1234567890'' RBT.empty)\<rparr>)) ''E90_A'' \<noteq> None
   \<and> androidx86 controller_build
   \<and> RBT.lookup (configurations (authenticationError controller_build
        (constructed\<lparr>bindingWiFi := True, ssid' := ''E90_A'',
           configurations := RBT.insert ''E90_A'' ''secret''
                               (RBT.insert ''E90_B'' ''1234567890'' RBT.empty)\<rparr>))) ''E90_A''
       = None
   \<and> RBT.lookup (configurations (authenticationError controller_build
        (constructed\<lparr>bindingWiFi := True, ssid' := ''E90_A'',
           configurations := RBT.insert ''E90_A'' ''secret''
                               (RBT.insert ''E90_B'' ''1234567890'' RBT.empty)\<rparr>))) ''E90_B''
       = Some ''1234567890''
   \<and> settings (authenticationError controller_build
        (constructed\<lparr>bindingWiFi := True, ssid' := ''E90_A'',
           configurations := RBT.insert ''E90_A'' ''secret''
                               (RBT.insert ''E90_B'' ''1234567890'' RBT.empty)\<rparr>))
        (kWifiConfig, ''E90_B'') = Some (VString ''1234567890'')
   \<and> settings (authenticationError controller_build
        (constructed\<lparr>bindingWiFi := True, ssid' := ''E90_A'',
           configurations := RBT.insert ''E90_A'' ''secret''
                               (RBT.insert ''E90_B'' ''1234567890'' RBT.empty)\<rparr>))
        (kWifiConfig, ''E90_A'') = None
   \<and> \<not> bindingWiFi (authenticationError controller_build
        (constructed\<lparr>bindingWiFi := True, ssid' := ''E90_A'',
           configurations := RBT.insert ''E90_A'' ''secret''
                               (RBT.insert ''E90_B'' ''1234567890'' RBT.empty)\<rparr>))
   \<and> scanningWiFi (authenticationError controller_build
        (constructed\<lparr>bindingWiFi := True, ssid' := ''E90_A'',
           configurations := RBT.insert ''E90_A'' ''secret''
                               (RBT.insert ''E90_B'' ''1234567890'' RBT.empty)\<rparr>))"
proof -
  define st0 where
    "st0 = constructed\<lparr>bindingWiFi := True, ssid' := ''E90_A'',
             configurations := RBT.insert ''E90_A'' ''secret''
                                 (RBT.insert ''E90_B'' ''1234567890'' RBT.empty)\<rparr>"
  have cur: "ssid' st0 = ''E90_A''"
    and cfg: "configurations st0
                = RBT.insert ''E90_A'' ''secret'' (RBT.insert ''E90_B'' ''1234567890'' RBT.empty)"
    by (simp_all add: st0_def)
  have present: "RBT.lookup (configurations st0) (ssid' st0) \<noteq> None"
    by (simp add: cur cfg)
  have build: "androidx86 controller_build" "startScan_default_delay controller_build = 0"
    by (simp_all add: controller_build_def)
  note t = authenticationError_prunes [of controller_build st0]
  have map: "RBT.lookup (configurations (authenticationError controller_build st0))
               = (RBT.lookup (configurations st0))(''E90_A'' := None)"
    using t cur by simp
  have a: "RBT.lookup (configurations (authenticationError controller_build st0)) ''E90_A'' = None"
    and b: "RBT.lookup (configurations (authenticationError controller_build st0)) ''E90_B''
              = Some ''1234567890''"
    by (simp_all add: map cfg)
  have saved: "settings (authenticationError controller_build st0) (kWifiConfig, k)
           = (if k = [] then None
              else map_option VString
                     (RBT.lookup (configurations (authenticationError controller_build st0)) k))"
    for k
    using t present by simp
  have c: "settings (authenticationError controller_build st0) (kWifiConfig, ''E90_B'')
             = Some (VString ''1234567890'')"
    and d: "settings (authenticationError controller_build st0) (kWifiConfig, ''E90_A'') = None"
    by (simp_all add: saved a b)
  have e: "\<not> bindingWiFi (authenticationError controller_build st0)"
    using t by blast
  have f: "scanningWiFi (authenticationError controller_build st0)"
    using t build by simp
  show ?thesis
    using present build(1) a b c d e f unfolding st0_def cur [unfolded st0_def] by simp
qed

subsection \<open>Refreshing the media list\<close>

lemma mediaList_emit [simp]: "mediaList (emit s st) = mediaList st"
  by (simp add: emit_def)

lemma foldl_appendMediaItem:
  "mediaList (foldl (\<lambda>s n. appendMediaItem \<lparr>fileName = n, selected = False\<rparr> s) st names)
     = mediaList st @ map (\<lambda>n. \<lparr>fileName = n, selected = False\<rparr>) names"
  by (induction names arbitrary: st) (simp_all add: appendMediaItem_def)

lemma refreshMeadiaList_mediaList:
  "mediaList (refreshMeadiaList b env st)
     = std_sort (\<lambda>a b. fileName a > fileName b)
         (map (\<lambda>n. \<lparr>fileName = n, selected = False\<rparr>)
            (entryList
               (directory env (savePath env @ (if browseVideos st then ''/Video'' else ''/Photo'')))
               (if browseVideos st then [''*'' @ YUNEEC_VIDEO_EXTENSION b]
                else [''*.jpg'', ''*.JPG''])))"
  by (simp add: refreshMeadiaList_def Let_def foldl_appendMediaItem clearMediaItems_def emit_def)

text \<open>
  Claim C7, as stated, for a photo directory that holds the file \<^verbatim>\<open>a.jpg\<close> and a
  subdirectory \<^verbatim>\<open>old.jpg\<close>: both entries match the name filter \<^verbatim>\<open>*.jpg\<close>, but the list
  holds only the file, since the directory filter admits regular files only.
\<close>

theorem refreshMeadiaList_counterexample:
  "mset (map fileName (mediaList (refreshMeadiaList controller_build
       \<lparr>savePath = ''/sd'',
        directory = (\<lambda>p. if p = ''/sd/Photo''
          then [\<lparr>entryName = ''a.jpg'', isFile = True, isReadable = True, isSymLink = False,
                 isHidden = False\<rparr>,
                \<lparr>entryName = ''old.jpg'', isFile = False, isReadable = True, isSymLink = False,
                 isHidden = False\<rparr>]
          else [])\<rparr>
       constructed)))
   \<noteq> mset (names_matching
        [\<lparr>entryName = ''a.jpg'', isFile = True, isReadable = True, isSymLink = False,
          isHidden = False\<rparr>,
         \<lparr>entryName = ''old.jpg'', isFile = False, isReadable = True, isSymLink = False,
          isHidden = False\<rparr>]
        [''*.jpg'', ''*.JPG''])"
  by (simp add: refreshMeadiaList_mediaList entryList_def names_matching_def matchesAny_def
      constructed_def toLower_def std_sort_def)

text \<open>
  Claim C7, amended. After every \<open>refreshMeadiaList\<close> the media list is ordered by file
  name, descending, and it holds exactly the entries of the browsed directory that are
  readable regular files, neither symbolic links nor hidden, and whose name matches one of
  the active name filters (each such entry once).
\<close>

theorem refreshMeadiaList_sorted_exact:
  "sorted_wrt (\<lambda>a b. fileName a \<ge> fileName b) (mediaList (refreshMeadiaList b env st))
   \<and> mset (map fileName (mediaList (refreshMeadiaList b env st)))
       = mset (map entryName
           (filter (\<lambda>e. isFile e \<and> isReadable e \<and> \<not> isSymLink e \<and> \<not> isHidden e
                        \<and> matchesAny (if browseVideos st then [''*'' @ YUNEEC_VIDEO_EXTENSION b]
                                       else [''*.jpg'', ''*.JPG'']) (entryName e))
              (directory env (savePath env @ (if browseVideos st then ''/Video''
                                              else ''/Photo'')))))"
proof -
  define names where
    "names = entryList
               (directory env (savePath env @ (if browseVideos st then ''/Video'' else ''/Photo'')))
               (if browseVideos st then [''*'' @ YUNEEC_VIDEO_EXTENSION b]
                else [''*.jpg'', ''*.JPG''])"
  define items where "items = map (\<lambda>n. \<lparr>fileName = n, selected = False\<rparr>) names"
  have list: "mediaList (refreshMeadiaList b env st)
                = std_sort (\<lambda>a b. fileName a > fileName b) items"
    unfolding items_def names_def by (rule refreshMeadiaList_mediaList)
  have "mset (map fileName (std_sort (\<lambda>a b. fileName a > fileName b) items))
          = mset (map fileName items)"
    by (simp add: mset_std_sort)
  also have "map fileName items = names"
    by (simp add: items_def comp_def)
  finally have content: "mset (map fileName (mediaList (refreshMeadiaList b env st))) = mset names"
    by (simp add: list)
  have "sorted_wrt (\<lambda>a b. fileName a \<ge> fileName b) (mediaList (refreshMeadiaList b env st))"
    unfolding list by (rule sorted_std_sort)
  then show ?thesis
    using content unfolding names_def entryList_def by simp
qed

theorem refreshMeadiaList_sorted_exact_witness:
  "map fileName (mediaList (refreshMeadiaList controller_build
       \<lparr>savePath = ''/sd'',
        directory = (\<lambda>p. if p = ''/sd/Photo''
          then [\<lparr>entryName = ''a.jpg'', isFile = True, isReadable = True, isSymLink = False,
                 isHidden = False\<rparr>,
                \<lparr>entryName = ''c.JPG'', isFile = True, isReadable = True, isSymLink = False,
                 isHidden = False\<rparr>,
                \<lparr>entryName = ''old.jpg'', isFile = False, isReadable = True, isSymLink = False,
                 isHidden = False\<rparr>]
          else [])\<rparr>
       constructed))
   = [''c.JPG'', ''a.jpg'']"
proof -
  define env where
    "env = \<lparr>savePath = ''/sd'',
        directory = (\<lambda>p. if p = ''/sd/Photo''
          then [\<lparr>entryName = ''a.jpg'', isFile = True, isReadable = True, isSymLink = False,
                 isHidden = False\<rparr>,
                \<lparr>entryName = ''c.JPG'', isFile = True, isReadable = True, isSymLink = False,
                 isHidden = False\<rparr>,
                \<lparr>entryName = ''old.jpg'', isFile = False, isReadable = True, isSymLink = False,
                 isHidden = False\<rparr>]
          else [])\<rparr>"
  define l where "l = map fileName (mediaList (refreshMeadiaList controller_build env constructed))"
  have "sorted_wrt (\<ge>) l \<and> mset l = mset [''a.jpg'', ''c.JPG'']"
    using refreshMeadiaList_sorted_exact [of controller_build env constructed]
    by (simp add: l_def env_def constructed_def matchesAny_def toLower_def sorted_wrt_map)
  then have "sorted (rev l)" "mset (rev l) = mset [''a.jpg'', ''c.JPG'']"
    by (simp_all add: sorted_wrt_rev)
  moreover have "sorted [''a.jpg'', ''c.JPG'']"
    by simp
  ultimately have "rev l = [''a.jpg'', ''c.JPG'']"
    by (metis properties_for_sort sorted_sort_id)
  then have "l = [''c.JPG'', ''a.jpg'']"
    by (metis rev_rev_ident rev.simps append_Nil append_Cons)
  then show ?thesis
    unfolding l_def env_def .
qed

subsection \<open>Log rotation\<close>

text \<open>
  What the rotation does achieve: the files that stay are a tail of the sorted list, and
  either none stays or those that stay take at most 1 GB together.
\<close>

lemma foldl_sizes: "foldl (\<lambda>t l. t + size_bytes l) a logs = a + sum_list (map size_bytes logs)"
  by (induction logs arbitrary: a) simp_all

lemma remove_logs_bound:
  assumes "remove_logs t logs files = (t', logs', files')"
    and "t = sum_list (map size_bytes logs)"
  shows "(logs' = [] \<or> sum_list (map size_bytes logs') \<le> 1024 * 1024 * 1024)
         \<and> (\<exists>removed. logs = removed @ logs')"
  using assms
proof (induction logs arbitrary: t files)
  case Nil
  then show ?case by simp
next
  case (Cons l logs)
  show ?case
  proof (cases "t > 1024 * 1024 * 1024")
    case True
    then have "remove_logs (t - size_bytes l) logs (files(filePath l := False))
                 = (t', logs', files')"
      using Cons.prems(1) by simp
    moreover have "t - size_bytes l = sum_list (map size_bytes logs)"
      using Cons.prems(2) by simp
    ultimately have "(logs' = [] \<or> sum_list (map size_bytes logs') \<le> 1024 * 1024 * 1024)
         \<and> (\<exists>removed. logs = removed @ logs')"
      by (rule Cons.IH)
    then show ?thesis
      by (metis append_Cons)
  next
    case False
    then have "logs' = l # logs"
      using Cons.prems(1) by simp
    then show ?thesis
      using False Cons.prems(2) by simp
  qed
qed

lemma init_logs_bound:
  assumes "length entryInfoList > 1"
  shows "(fst (init_logs entryInfoList files) = []
          \<or> sum_list (map size_bytes (fst (init_logs entryInfoList files))) \<le> 1024 * 1024 * 1024)
         \<and> (\<exists>removed. std_sort created_greater_than entryInfoList
                          = removed @ fst (init_logs entryInfoList files))"
proof -
  define logs where "logs = std_sort created_greater_than entryInfoList"
  have "length logs = length entryInfoList"
    unfolding logs_def by (metis mset_std_sort size_mset)
  then have many: "length logs > 1"
    using assms by simp
  obtain t' logs' files' where run:
      "remove_logs (foldl (\<lambda>t l. t + size_bytes l) 0 logs) logs files = (t', logs', files')"
    by (metis prod_cases3)
  have "fst (init_logs entryInfoList files) = logs'"
    using many run by (simp add: init_logs_def Let_def flip: logs_def)
  then show ?thesis
    using remove_logs_bound [OF run] by (simp add: foldl_sizes flip: logs_def)
qed

text \<open>
  Claim C5 says that the rotation deletes the oldest log file until at most 1 GB remains.
  \<open>created_greater_than\<close> sorts the most recently created file to the front, and the loop
  removes the front of the list. With a log of exactly 1 GB created at time 1000 and a
  log of one byte created later, at time 2000, the total exceeds 1 GB: the loop removes
  the later log and stops; the earlier log stays.
\<close>

theorem init_logs_removes_newest:
  "fst (init_logs
          [\<lparr>filePath = ''/logs/2017-06-01.tlog'', created = 1000, size_bytes = 1024 * 1024 * 1024\<rparr>,
           \<lparr>filePath = ''/logs/2017-06-02.tlog'', created = 2000, size_bytes = 1\<rparr>]
          (\<lambda>p. p = ''/logs/2017-06-01.tlog'' \<or> p = ''/logs/2017-06-02.tlog''))
     = [\<lparr>filePath = ''/logs/2017-06-01.tlog'', created = 1000, size_bytes = 1024 * 1024 * 1024\<rparr>]
   \<and> snd (init_logs
          [\<lparr>filePath = ''/logs/2017-06-01.tlog'', created = 1000, size_bytes = 1024 * 1024 * 1024\<rparr>,
           \<lparr>filePath = ''/logs/2017-06-02.tlog'', created = 2000, size_bytes = 1\<rparr>]
          (\<lambda>p. p = ''/logs/2017-06-01.tlog'' \<or> p = ''/logs/2017-06-02.tlog'')) ''/logs/2017-06-01.tlog''
   \<and> \<not> snd (init_logs
          [\<lparr>filePath = ''/logs/2017-06-01.tlog'', created = 1000, size_bytes = 1024 * 1024 * 1024\<rparr>,
           \<lparr>filePath = ''/logs/2017-06-02.tlog'', created = 2000, size_bytes = 1\<rparr>]
          (\<lambda>p. p = ''/logs/2017-06-01.tlog'' \<or> p = ''/logs/2017-06-02.tlog'')) ''/logs/2017-06-02.tlog''"
  by (simp add: init_logs_def std_sort_def created_greater_than_def Let_def)

subsection \<open>Mission import\<close>

text \<open>
  Claim C6 says that \<open>copyingFiles\<close> is false once a mission import has failed for want of
  the source path. \<open>importMission\<close> sets the flag; when the timer then runs
  \<open>importMissions\<close> and the source path does not exist, the function sets the message and
  returns: \<open>copyingFiles\<close> is still true and \<open>copyingDone\<close> still false.
\<close>

theorem importMissions_missing_source_keeps_flag:
  "copyingFiles (fst (importMissions controller_build
       \<lparr>dir_exists = (\<lambda>p. p \<noteq> ''/storage/sdcard1''), plan_files = (\<lambda>p. []),
        missionSavePath = ''/missions'', copy_succeeds = (\<lambda>s d. True),
        percent = (\<lambda>c t. 0)\<rparr>
       (importMission constructed, (\<lambda>p. False))))
   \<and> \<not> copyingDone (fst (importMissions controller_build
       \<lparr>dir_exists = (\<lambda>p. p \<noteq> ''/storage/sdcard1''), plan_files = (\<lambda>p. []),
        missionSavePath = ''/missions'', copy_succeeds = (\<lambda>s d. True),
        percent = (\<lambda>c t. 0)\<rparr>
       (importMission constructed, (\<lambda>p. False))))
   \<and> copyMessage (fst (importMissions controller_build
       \<lparr>dir_exists = (\<lambda>p. p \<noteq> ''/storage/sdcard1''), plan_files = (\<lambda>p. []),
        missionSavePath = ''/missions'', copy_succeeds = (\<lambda>s d. True),
        percent = (\<lambda>c t. 0)\<rparr>
       (importMission constructed, (\<lambda>p. False))))
     = ''Source path missing. Make sure you have a (FAT32 Formatted) microSD card loaded.''"
  by (simp add: importMissions_def importMission_def controller_build_def constructed_def
      sourcePath_def exportMessage_def emit_def Let_def)

text \<open>
  The other failure of the import, a copy that fails, does reset the flags: with one plan
  file on the card whose copy fails, \<open>copyingFiles\<close> is false and \<open>copyingDone\<close> true
  afterwards.
\<close>

lemma importMissions_copy_failure_resets_flags:
  "\<not> copyingFiles (fst (importMissions controller_build
       \<lparr>dir_exists = (\<lambda>p. True), plan_files = (\<lambda>p. [''/storage/sdcard1/a.plan'']),
        missionSavePath = ''/missions'', copy_succeeds = (\<lambda>s d. False),
        percent = (\<lambda>c t. 0)\<rparr>
       (importMission constructed, (\<lambda>p. False))))
   \<and> copyingDone (fst (importMissions controller_build
       \<lparr>dir_exists = (\<lambda>p. True), plan_files = (\<lambda>p. [''/storage/sdcard1/a.plan'']),
        missionSavePath = ''/missions'', copy_succeeds = (\<lambda>s d. False),
        percent = (\<lambda>c t. 0)\<rparr>
       (importMission constructed, (\<lambda>p. False))))"
  by (simp add: importMissions_def importMission_def controller_build_def constructed_def
      sourcePath_def exportMessage_def copyProgress_def emit_def Let_def)

subsection \<open>The firmware copy\<close>

lemma copy_errors_append: "copy_errors (xs @ ys) = copy_errors xs @ copy_errors ys"
  by (induction xs rule: copy_errors.induct) simp_all

lemma written_bytes_append: "written_bytes (xs @ ys) = written_bytes xs + written_bytes ys"
  by (induction xs rule: written_bytes.induct) simp_all

lemma READ_CHUNK_SIZE_pos: "0 < READ_CHUNK_SIZE"
  by (simp add: READ_CHUNK_SIZE_def)

lemma inFile_read_le: "inFile_read c step st \<le> int READ_CHUNK_SIZE"
  by (simp add: inFile_read_def min_def)

lemma inFile_read_avail:
  "0 \<le> inFile_read c step st \<Longrightarrow>
     nat (inFile_read c step st) \<le> length (file_bytes (fs st) (src c)) - in_pos st"
  by (auto simp: inFile_read_def min_def split: if_splits)

text \<open>One turn of the loop, by cases.\<close>

lemma copy_loop_atEnd:
  "atEnd c st \<Longrightarrow> copy_loop c env t steps st = Some (Fallthrough st)"
  by (cases steps) simp_all

lemma copy_loop_read_fails:
  assumes "\<not> atEnd c st" and "inFile_read c step st < 0"
  shows "copy_loop c env t (step # rest) st
         = Some (Returned (abort_copy c ''Error reading firmware file.''
                   (st\<lparr>events := events st @ [Read READ_CHUNK_SIZE (inFile_read c step st)]\<rparr>)))"
  using assms by (simp add: Let_def)

lemma copy_loop_write_fails:
  assumes "\<not> atEnd c st" and "\<not> inFile_read c step st < 0"
    and "inFile_read c step st \<noteq> 0"
    and "outFile_write step (inFile_read c step st) \<noteq> inFile_read c step st"
  shows "copy_loop c env t (step # rest) st
         = Some (Returned (abort_copy c ''Error writing firmware file.'' (after_write c step st)))"
  using assms by (simp add: Let_def after_write_def)

lemma copy_loop_continues:
  assumes "\<not> atEnd c st" and "\<not> inFile_read c step st < 0"
    and "inFile_read c step st = 0
         \<or> outFile_write step (inFile_read c step st) = inFile_read c step st"
  shows "copy_loop c env t (step # rest) st
         = copy_loop c env t rest
             ((after_write c step st)
                \<lparr>current := current st + nat (inFile_read c step st),
                 events := events (after_write c step st) @
                   [Emit (CopyProgress
                      (progress_percent env (current st + nat (inFile_read c step st)) t))]\<rparr>)"
  using assms by (auto simp: Let_def after_write_def)


declare copy_loop.simps [simp del]

lemma after_write_events:
  assumes "0 \<le> inFile_read c step st"
  shows "\<exists>new. events (after_write c step st) = events st @ new
           \<and> list_all chunked new \<and> Emit CopyDone \<notin> set new \<and> copy_errors new = []
           \<and> (list_ex io_failed new
                = (inFile_read c step st \<noteq> 0
                   \<and> outFile_write step (inFile_read c step st) \<noteq> inFile_read c step st))
           \<and> written_bytes new = nat (inFile_read c step st)"
proof (cases "inFile_read c step st = 0")
  case True
  then have "events (after_write c step st) = events st @ [Read READ_CHUNK_SIZE 0]"
    by (simp add: after_write_def)
  then show ?thesis
    using True by simp
next
  case False
  define n where "n = inFile_read c step st"
  have n: "0 < n" "n \<le> int READ_CHUNK_SIZE"
    using False assms inFile_read_le [of c step st] by (simp_all add: n_def)
  have "events (after_write c step st)
          = events st @ [Read READ_CHUNK_SIZE n, Write (nat n) (outFile_write step n)]"
    using False by (simp add: after_write_def n_def Let_def)
  then show ?thesis
    using n False unfolding n_def [symmetric] by auto
qed

lemma abort_copy_fields [simp]:
  "fs (abort_copy c m st) (dst c) = None"
  "events (abort_copy c m st) = events st @ [Emit (CopyError m)]"
  by (simp_all add: abort_copy_def)

lemma copy_loop_events:
  assumes "copy_loop c env t steps st = Some r"
  shows "\<exists>new. events (exit_state r) = events st @ new
           \<and> list_all chunked new \<and> Emit CopyDone \<notin> set new
           \<and> ((\<exists>s. r = Fallthrough s) \<longrightarrow> \<not> list_ex io_failed new \<and> copy_errors new = [])
           \<and> ((\<exists>s. r = Returned s) \<longrightarrow>
                 list_ex io_failed new \<and> fs (exit_state r) (dst c) = None
                 \<and> new \<noteq> [] \<and> copy_errors (butlast new) = []
                 \<and> (last new = Emit (CopyError ''Error reading firmware file.'')
                     \<or> last new = Emit (CopyError ''Error writing firmware file.'')))"
  using assms
proof (induction steps arbitrary: st)
  case Nil
  then have "r = Fallthrough st"
    by (simp add: copy_loop.simps(1) split: if_splits)
  then show ?case
    by (intro exI [of _ "[]"]) simp
next
  case (Cons step rest)
  define n where "n = inFile_read c step st"
  consider (finished) "atEnd c st"
    | (read_err) "\<not> atEnd c st" "n < 0"
    | (write_err) "\<not> atEnd c st" "\<not> n < 0" "n \<noteq> 0" "outFile_write step n \<noteq> n"
    | (goes_on) "\<not> atEnd c st" "\<not> n < 0" "n = 0 \<or> outFile_write step n = n"
    by blast
  then show ?case
  proof cases
    case finished
    then have "r = Fallthrough st"
      using Cons.prems by (simp add: copy_loop_atEnd)
    then show ?thesis
      by (intro exI [of _ "[]"]) simp
  next
    case read_err
    define st' where
      "st' = abort_copy c ''Error reading firmware file.''
               (st\<lparr>events := events st @ [Read READ_CHUNK_SIZE n]\<rparr>)"
    have r: "r = Returned st'"
      using Cons.prems copy_loop_read_fails [of c st step env t rest] read_err
      by (simp add: n_def st'_def)
    have ev: "events st' = events st @ [Read READ_CHUNK_SIZE n,
                Emit (CopyError ''Error reading firmware file.'')]"
      by (simp add: st'_def)
    have dst: "fs st' (dst c) = None"
      by (simp add: st'_def)
    show ?thesis
      unfolding r
      by (rule exI [of _ "[Read READ_CHUNK_SIZE n,
                Emit (CopyError ''Error reading firmware file.'')]"])
        (use inFile_read_le [of c step st] in \<open>simp add: ev dst read_err(2) flip: n_def\<close>)
  next
    case write_err
    define st' where
      "st' = abort_copy c ''Error writing firmware file.'' (after_write c step st)"
    have r: "r = Returned st'"
      using Cons.prems copy_loop_write_fails [of c st step env t rest] write_err
      by (simp add: n_def st'_def)
    obtain new where new: "events (after_write c step st) = events st @ new"
        "list_all chunked new" "Emit CopyDone \<notin> set new" "copy_errors new = []"
        "list_ex io_failed new"
      using after_write_events [of c step st] write_err by (auto simp: n_def)
    have ev: "events st' = events st @ (new @ [Emit (CopyError ''Error writing firmware file.'')])"
      by (simp add: st'_def new(1))
    have dst: "fs st' (dst c) = None"
      by (simp add: st'_def)
    show ?thesis
      unfolding r
      by (rule exI [of _ "new @ [Emit (CopyError ''Error writing firmware file.'')]"])
        (simp add: ev dst new)
  next
    case goes_on
    define st4 where
      "st4 = (after_write c step st)
                \<lparr>current := current st + nat n,
                 events := events (after_write c step st) @
                   [Emit (CopyProgress (progress_percent env (current st + nat n) t))]\<rparr>"
    have run: "copy_loop c env t rest st4 = Some r"
      using Cons.prems copy_loop_continues [of c st step env t rest] goes_on
      by (simp add: n_def st4_def)
    obtain new1 where new1: "events (after_write c step st) = events st @ new1"
        "list_all chunked new1" "Emit CopyDone \<notin> set new1" "copy_errors new1 = []"
        "\<not> list_ex io_failed new1"
      using after_write_events [of c step st] goes_on by (auto simp: n_def)
    define turn where
      "turn = new1 @ [Emit (CopyProgress (progress_percent env (current st + nat n) t))]"
    have turn: "events st4 = events st @ turn" "list_all chunked turn"
        "Emit CopyDone \<notin> set turn" "copy_errors turn = []" "\<not> list_ex io_failed turn"
      using new1 by (simp_all add: st4_def turn_def copy_errors_append)
    obtain new where IH: "events (exit_state r) = events st4 @ new"
        "list_all chunked new" "Emit CopyDone \<notin> set new"
        "(\<exists>s. r = Fallthrough s) \<longrightarrow> \<not> list_ex io_failed new \<and> copy_errors new = []"
        "(\<exists>s. r = Returned s) \<longrightarrow>
                 list_ex io_failed new \<and> fs (exit_state r) (dst c) = None
                 \<and> new \<noteq> [] \<and> copy_errors (butlast new) = []
                 \<and> (last new = Emit (CopyError ''Error reading firmware file.'')
                     \<or> last new = Emit (CopyError ''Error writing firmware file.''))"
      using Cons.IH [OF run] by blast
    show ?thesis
    proof (rule exI [of _ "turn @ new"], intro conjI impI)
      show "events (exit_state r) = events st @ turn @ new"
        by (simp add: IH(1) turn(1))
      show "list_all chunked (turn @ new)"
        by (simp add: IH(2) turn(2))
      show "Emit CopyDone \<notin> set (turn @ new)"
        using IH(3) turn(3) by simp
      show "\<not> list_ex io_failed (turn @ new)" if "\<exists>s. r = Fallthrough s"
        using that IH(4) turn(5) by simp
      show "copy_errors (turn @ new) = []" if "\<exists>s. r = Fallthrough s"
        using that IH(4) turn(4) by (simp add: copy_errors_append)
      show "list_ex io_failed (turn @ new)" if "\<exists>s. r = Returned s"
        using that IH(5) by simp
      show "fs (exit_state r) (dst c) = None" if "\<exists>s. r = Returned s"
        using that IH(5) by simp
      show "turn @ new \<noteq> []" if "\<exists>s. r = Returned s"
        using that IH(5) by simp
      show "copy_errors (butlast (turn @ new)) = []" if "\<exists>s. r = Returned s"
        using that IH(5) turn(4) by (simp add: butlast_append copy_errors_append)
      show "last (turn @ new) = Emit (CopyError ''Error reading firmware file.'')
            \<or> last (turn @ new) = Emit (CopyError ''Error writing firmware file.'')"
        if "\<exists>s. r = Returned s"
        using that IH(5) by simp
    qed
  qed
qed


lemma after_write_fs:
  assumes "src c \<noteq> dst c" and "0 \<le> inFile_read c step st"
    and "inFile_read c step st = 0
         \<or> outFile_write step (inFile_read c step st) = inFile_read c step st"
    and "fs st (src c) = Some content"
    and "fs st (dst c) = Some (take (in_pos st) content)"
  shows "fs (after_write c step st) (src c) = Some content"
    and "fs (after_write c step st) (dst c)
           = Some (take (in_pos st + nat (inFile_read c step st)) content)"
    and "in_pos (after_write c step st) = in_pos st + nat (inFile_read c step st)"
  using assms by (auto simp: after_write_def Let_def file_bytes_def take_add)

lemma copy_loop_content:
  assumes "src c \<noteq> dst c"
    and "fs st (src c) = Some content"
    and "fs st (dst c) = Some (take (in_pos st) content)"
    and "in_pos st \<le> length content"
    and "copy_loop c env t steps st = Some (Fallthrough st')"
  shows "fs st' (dst c) = Some content \<and> fs st' (src c) = Some content
         \<and> (\<exists>new. events st' = events st @ new
               \<and> written_bytes new + in_pos st = length content)"
  using assms(2-)
proof (induction steps arbitrary: st)
  case Nil
  then have "atEnd c st" "st' = st"
    by (simp_all add: copy_loop.simps(1) split: if_splits)
  then show ?case
    using Nil.prems by (simp add: atEnd_def file_bytes_def)
next
  case (Cons step rest)
  define n where "n = inFile_read c step st"
  consider (finished) "atEnd c st"
    | (read_err) "\<not> atEnd c st" "n < 0"
    | (write_err) "\<not> atEnd c st" "\<not> n < 0" "n \<noteq> 0" "outFile_write step n \<noteq> n"
    | (goes_on) "\<not> atEnd c st" "\<not> n < 0" "n = 0 \<or> outFile_write step n = n"
    by blast
  then show ?case
  proof cases
    case finished
    then have "st' = st"
      using Cons.prems by (simp add: copy_loop_atEnd)
    then show ?thesis
      using finished Cons.prems by (simp add: atEnd_def file_bytes_def)
  next
    case read_err
    then show ?thesis
      using Cons.prems(4) copy_loop_read_fails [of c st step env t rest] by (simp add: n_def)
  next
    case write_err
    then show ?thesis
      using Cons.prems(4) copy_loop_write_fails [of c st step env t rest] by (simp add: n_def)
  next
    case goes_on
    define st4 where
      "st4 = (after_write c step st)
                \<lparr>current := current st + nat n,
                 events := events (after_write c step st) @
                   [Emit (CopyProgress (progress_percent env (current st + nat n) t))]\<rparr>"
    have run: "copy_loop c env t rest st4 = Some (Fallthrough st')"
      using Cons.prems(4) copy_loop_continues [of c st step env t rest] goes_on
      by (simp add: n_def st4_def)
    have n0: "0 \<le> n"
      using goes_on(2) by simp
    have avail: "nat n \<le> length content - in_pos st"
      using inFile_read_avail [of c step st] n0 Cons.prems(1)
      by (simp add: n_def file_bytes_def)
    note aw = after_write_fs [OF assms(1) n0 [unfolded n_def] goes_on(3) [unfolded n_def]
        Cons.prems(1) Cons.prems(2), folded n_def]
    have st4: "fs st4 (src c) = Some content"
        "fs st4 (dst c) = Some (take (in_pos st4) content)"
        "in_pos st4 \<le> length content" "in_pos st4 = in_pos st + nat n"
      using aw avail Cons.prems(3) by (simp_all add: st4_def)
    obtain new1 where new1: "events (after_write c step st) = events st @ new1"
        "written_bytes new1 = nat n"
      using after_write_events [of c step st] n0 by (auto simp: n_def)
    obtain new where new: "events st' = events st4 @ new"
        "written_bytes new + in_pos st4 = length content"
      using Cons.IH [OF st4(1-3) run] by blast
    have "events st' = events st @ (new1 @
            [Emit (CopyProgress (progress_percent env (current st + nat n) t))] @ new)"
      by (simp add: new(1) st4_def new1(1))
    moreover have "written_bytes (new1 @
            [Emit (CopyProgress (progress_percent env (current st + nat n) t))] @ new)
          + in_pos st = length content"
      using new(2) new1(2) st4(4) by (simp add: written_bytes_append)
    ultimately show ?thesis
      using Cons.IH [OF st4(1-3) run] by blast
  qed
qed

lemma copy_loop_terminates:
  assumes "src c \<noteq> dst c"
    and "\<forall>s \<in> set steps. 0 < rd s \<and> int READ_CHUNK_SIZE \<le> wr s"
    and "length (file_bytes (fs st) (src c)) - in_pos st \<le> length steps"
  shows "\<exists>st'. copy_loop c env t steps st = Some (Fallthrough st')"
  using assms(2-)
proof (induction steps arbitrary: st)
  case Nil
  then show ?case
    by (simp add: copy_loop.simps(1) atEnd_def)
next
  case (Cons step rest)
  show ?case
  proof (cases "atEnd c st")
    case True
    then show ?thesis
      by (simp add: copy_loop_atEnd)
  next
    case False
    define n where "n = inFile_read c step st"
    have step: "0 < rd step" "int READ_CHUNK_SIZE \<le> wr step"
      using Cons.prems(1) by simp_all
    have left: "0 < length (file_bytes (fs st) (src c)) - in_pos st"
      using False by (simp add: atEnd_def)
    have n: "0 < n"
      using step(1) left READ_CHUNK_SIZE_pos by (simp add: n_def inFile_read_def)
    have w: "outFile_write step n = n"
      using step(2) inFile_read_le [of c step st] by (simp add: outFile_write_def n_def)
    define st4 where
      "st4 = (after_write c step st)
                \<lparr>current := current st + nat n,
                 events := events (after_write c step st) @
                   [Emit (CopyProgress (progress_percent env (current st + nat n) t))]\<rparr>"
    have run: "copy_loop c env t (step # rest) st = copy_loop c env t rest st4"
      using copy_loop_continues [of c st step env t rest] False n w
      by (simp add: n_def st4_def)
    have "file_bytes (fs st4) (src c) = file_bytes (fs st) (src c)"
        "in_pos st4 = in_pos st + nat n"
      using assms(1) by (simp_all add: st4_def after_write_def Let_def file_bytes_def n_def)
    then have "length (file_bytes (fs st4) (src c)) - in_pos st4 \<le> length rest"
      using Cons.prems(2) n by simp
    then show ?thesis
      unfolding run using Cons.IH [of st4] Cons.prems(1) by simp
  qed
qed

lemma copy_loop_failing_step_returns:
  assumes "\<exists>s \<in> set steps. rd s < 0 \<or> (0 < rd s \<and> wr s \<le> 0)"
  shows "copy_loop c env t steps st \<noteq> None"
  using assms
proof (induction steps arbitrary: st)
  case Nil
  then show ?case by simp
next
  case (Cons step rest)
  define n where "n = inFile_read c step st"
  consider (finished) "atEnd c st"
    | (read_err) "\<not> atEnd c st" "n < 0"
    | (write_err) "\<not> atEnd c st" "\<not> n < 0" "n \<noteq> 0" "outFile_write step n \<noteq> n"
    | (goes_on) "\<not> atEnd c st" "\<not> n < 0" "n = 0 \<or> outFile_write step n = n"
    by blast
  then show ?case
  proof cases
    case finished
    then show ?thesis
      by (simp add: copy_loop_atEnd)
  next
    case read_err
    then show ?thesis
      using copy_loop_read_fails [of c st step env t rest] by (simp add: n_def)
  next
    case write_err
    then show ?thesis
      using copy_loop_write_fails [of c st step env t rest] by (simp add: n_def)
  next
    case goes_on
    have left: "0 < length (file_bytes (fs st) (src c)) - in_pos st"
      using goes_on(1) by (simp add: atEnd_def)
    have "\<not> (rd step < 0 \<or> (0 < rd step \<and> wr step \<le> 0))"
    proof
      assume "rd step < 0 \<or> (0 < rd step \<and> wr step \<le> 0)"
      then show False
      proof
        assume "rd step < 0"
        then show False
          using goes_on(2) by (simp add: n_def inFile_read_def)
      next
        assume bad: "0 < rd step \<and> wr step \<le> 0"
        then have "0 < n"
          using left READ_CHUNK_SIZE_pos by (simp add: n_def inFile_read_def)
        moreover have "outFile_write step n \<le> 0"
          using bad by (simp add: outFile_write_def min_def)
        ultimately show False
          using goes_on(3) by simp
      qed
    qed
    then have "\<exists>s \<in> set rest. rd s < 0 \<or> (0 < rd s \<and> wr s \<le> 0)"
      using Cons.prems by auto
    then show ?thesis
      using copy_loop_continues [of c st step env t rest] goes_on Cons.IH
      by (simp add: n_def)
  qed
qed


lemma startCopy_opened:
  assumes "in_open env" and "f (src c) \<noteq> None" and "out_open env"
  shows "startCopy c env f =
     (case copy_loop c env (length (file_bytes f (src c))) (script env)
             \<lparr>fs = f(dst c \<mapsto> []), in_pos = 0, current = 0, events = []\<rparr> of
        None \<Rightarrow> None
      | Some (Returned st) \<Rightarrow> Some (fs st, events st)
      | Some (Fallthrough st) \<Rightarrow> Some (fs st, events st @ [Emit CopyDone]))"
  using assms by (simp add: startCopy_def Let_def)

lemma startCopy_not_opened:
  assumes "\<not> (in_open env \<and> f (src c) \<noteq> None \<and> out_open env)"
  shows "\<exists>m. startCopy c env f = Some (f, [Emit (CopyError m)])"
  using assms by (auto simp: startCopy_def Let_def)

lemma copy_errors_last:
  assumes "new \<noteq> []" and "copy_errors (butlast new) = []" and "last new = Emit (CopyError m)"
  shows "copy_errors new = [m]"
proof -
  have "new = butlast new @ [Emit (CopyError m)]"
    using assms(1,3) by (metis append_butlast_last_id)
  then have "copy_errors new = copy_errors (butlast new) @ copy_errors [Emit (CopyError m)]"
    by (metis copy_errors_append)
  then show ?thesis
    using assms(2) by simp
qed

text \<open>The three ways in which a run that returns can end.\<close>

lemma startCopy_cases:
  assumes "startCopy c env f = Some (f', tr)"
  obtains (not_opened) m where "tr = [Emit (CopyError m)]" "f' = f"
  | (aborted) st where "in_open env" "f (src c) \<noteq> None" "out_open env"
      "copy_loop c env (length (file_bytes f (src c))) (script env)
         \<lparr>fs = f(dst c \<mapsto> []), in_pos = 0, current = 0, events = []\<rparr> = Some (Returned st)"
      "f' = fs st" "tr = events st"
  | (completed) st where "in_open env" "f (src c) \<noteq> None" "out_open env"
      "copy_loop c env (length (file_bytes f (src c))) (script env)
         \<lparr>fs = f(dst c \<mapsto> []), in_pos = 0, current = 0, events = []\<rparr> = Some (Fallthrough st)"
      "f' = fs st" "tr = events st @ [Emit CopyDone]"
proof (cases "in_open env \<and> f (src c) \<noteq> None \<and> out_open env")
  case False
  then show ?thesis
    using startCopy_not_opened [of env f c] assms not_opened by auto
next
  case True
  then have opened: "in_open env" "f (src c) \<noteq> None" "out_open env"
    by simp_all
  show ?thesis
    using assms aborted [OF opened] completed [OF opened]
    unfolding startCopy_opened [where env = env and f = f and c = c, OF opened]
    by (auto split: option.splits loop_exit.splits)
qed

text \<open>
  Claim C1. The chunk size is 4 MB. Let the source file exist and let the destination be
  another path. Whenever \<open>startCopy\<close> returns without a \<open>CopyError\<close> (both files
  opened, every read and write succeeded), the destination file holds the bytes of the
  source file, which is unchanged;
  every read asked for \<open>READ_CHUNK_SIZE\<close> bytes and every write handed over between 1 and
  \<open>READ_CHUNK_SIZE\<close> bytes, no call failed, the writes add up to the size of the file; and
  \<open>CopyDone\<close> is the last event and occurs nowhere before. Such a run exists: when both
  files open, every read of the script delivers at least one byte, every write accepts a
  whole chunk, and the script is not shorter than the file, \<open>startCopy\<close> returns without a
  \<open>CopyError\<close>.
\<close>

theorem startCopy_success:
  "READ_CHUNK_SIZE = 4 * 1024 * 1024
   \<and> (src c \<noteq> dst c \<and> f (src c) = Some content \<longrightarrow>
     (\<forall>f' tr. startCopy c env f = Some (f', tr) \<and> copy_errors tr = [] \<longrightarrow>
          f' (dst c) = Some content \<and> f' (src c) = Some content
        \<and> list_all chunked tr \<and> \<not> list_ex io_failed tr \<and> written_bytes tr = length content
        \<and> tr \<noteq> [] \<and> last tr = Emit CopyDone \<and> Emit CopyDone \<notin> set (butlast tr))
   \<and> (in_open env \<and> out_open env
        \<and> (\<forall>s \<in> set (script env). 0 < rd s \<and> int READ_CHUNK_SIZE \<le> wr s)
        \<and> length content \<le> length (script env)
       \<longrightarrow> (\<exists>f' tr. startCopy c env f = Some (f', tr) \<and> copy_errors tr = [])))"
proof (intro impI conjI allI)
  show "READ_CHUNK_SIZE = 4 * 1024 * 1024"
    by (simp add: READ_CHUNK_SIZE_def)
next
  fix f' tr
  assume given: "src c \<noteq> dst c \<and> f (src c) = Some content"
    and run: "startCopy c env f = Some (f', tr) \<and> copy_errors tr = []"
  define init where "init = \<lparr>fs = f(dst c \<mapsto> []), in_pos = 0, current = 0, events = []\<rparr>"
  from run have ok: "copy_errors tr = []" and "startCopy c env f = Some (f', tr)"
    by simp_all
  from this(2) obtain st where loop:
      "copy_loop c env (length (file_bytes f (src c))) (script env) init = Some (Fallthrough st)"
      and res: "f' = fs st" "tr = events st @ [Emit CopyDone]"
  proof (cases rule: startCopy_cases)
    case (not_opened m)
    then show ?thesis
      using ok by simp
  next
    case (aborted st)
    then show ?thesis
      using copy_loop_events [OF aborted(4)] copy_errors_last ok by (auto simp: init_def)
  next
    case (completed st)
    then show ?thesis
      using that by (simp add: init_def)
  qed
  obtain new where new: "events st = new" "list_all chunked new" "Emit CopyDone \<notin> set new"
      "\<not> list_ex io_failed new"
    using copy_loop_events [OF loop] by (auto simp: init_def)
  have content: "fs st (dst c) = Some content" "fs st (src c) = Some content"
      "written_bytes (events st) = length content"
    using copy_loop_content [OF _ _ _ _ loop, of content] given by (auto simp: init_def)
  show "f' (dst c) = Some content" "f' (src c) = Some content"
    by (simp_all add: res content)
  show "list_all chunked tr" "\<not> list_ex io_failed tr" "tr \<noteq> []" "last tr = Emit CopyDone"
      "Emit CopyDone \<notin> set (butlast tr)"
    using new by (simp_all add: res)
  show "written_bytes tr = length content"
    by (simp add: res written_bytes_append content)
next
  assume given: "src c \<noteq> dst c \<and> f (src c) = Some content"
    and good: "in_open env \<and> out_open env
        \<and> (\<forall>s \<in> set (script env). 0 < rd s \<and> int READ_CHUNK_SIZE \<le> wr s)
        \<and> length content \<le> length (script env)"
  define init where "init = \<lparr>fs = f(dst c \<mapsto> []), in_pos = 0, current = 0, events = []\<rparr>"
  have opened: "in_open env" "f (src c) \<noteq> None" "out_open env"
    using given good by simp_all
  have "length (file_bytes (fs init) (src c)) - in_pos init \<le> length (script env)"
    using given good by (simp add: init_def file_bytes_def)
  then obtain st where loop:
      "copy_loop c env (length (file_bytes f (src c))) (script env) init = Some (Fallthrough st)"
    using copy_loop_terminates [of c "script env" init env] given good by blast
  have "copy_errors (events st) = []"
    using copy_loop_events [OF loop] by (auto simp: init_def)
  then have "startCopy c env f = Some (fs st, events st @ [Emit CopyDone])
             \<and> copy_errors (events st @ [Emit CopyDone]) = []"
    unfolding startCopy_opened [where env = env and f = f and c = c, OF opened] using loop
    by (simp add: init_def copy_errors_append)
  then show "\<exists>f' tr. startCopy c env f = Some (f', tr) \<and> copy_errors tr = []"
    by blast
qed

text \<open>
  Claim C2. Whenever a read or a write failed in a run of \<open>startCopy\<close> (which can only
  happen after the destination file was opened), the destination file has been removed,
  \<open>CopyDone\<close> was not emitted, and exactly one \<open>CopyError\<close> was emitted, as the last event
  of the run, with the message for a failed read or for a failed write. The run ends: a
  script with a read that fails, or with a read that delivers bytes and a write that
  accepts none, always makes \<open>startCopy\<close> return.
\<close>

theorem startCopy_io_failure:
  "(\<forall>f' tr. startCopy c env f = Some (f', tr) \<and> list_ex io_failed tr \<longrightarrow>
        f' (dst c) = None \<and> Emit CopyDone \<notin> set tr
      \<and> (\<exists>m. copy_errors tr = [m] \<and> last tr = Emit (CopyError m)
            \<and> (m = ''Error reading firmware file.'' \<or> m = ''Error writing firmware file.'')))
   \<and> ((\<exists>s \<in> set (script env). rd s < 0 \<or> (0 < rd s \<and> wr s \<le> 0)) \<longrightarrow>
         startCopy c env f \<noteq> None)"
proof (intro impI conjI allI)
  fix f' tr
  assume "startCopy c env f = Some (f', tr) \<and> list_ex io_failed tr"
  then have failed: "list_ex io_failed tr" and "startCopy c env f = Some (f', tr)"
    by simp_all
  from this(2) obtain st where loop:
      "copy_loop c env (length (file_bytes f (src c))) (script env)
         \<lparr>fs = f(dst c \<mapsto> []), in_pos = 0, current = 0, events = []\<rparr> = Some (Returned st)"
      and res: "f' = fs st" "tr = events st"
  proof (cases rule: startCopy_cases)
    case (not_opened m)
    then show ?thesis
      using failed by simp
  next
    case (aborted st)
    then show ?thesis
      using that by simp
  next
    case (completed st)
    then show ?thesis
      using copy_loop_events [OF completed(4)] failed by auto
  qed
  have ev: "Emit CopyDone \<notin> set tr" "fs st (dst c) = None" "tr \<noteq> []"
      "copy_errors (butlast tr) = []"
      "last tr = Emit (CopyError ''Error reading firmware file.'')
       \<or> last tr = Emit (CopyError ''Error writing firmware file.'')"
    using copy_loop_events [OF loop] by (auto simp: res)
  show "f' (dst c) = None" "Emit CopyDone \<notin> set tr"
    using ev by (simp_all add: res)
  show "\<exists>m. copy_errors tr = [m] \<and> last tr = Emit (CopyError m)
            \<and> (m = ''Error reading firmware file.'' \<or> m = ''Error writing firmware file.'')"
    using ev(5) copy_errors_last [OF ev(3,4)] by blast
next
  assume bad: "\<exists>s \<in> set (script env). rd s < 0 \<or> (0 < rd s \<and> wr s \<le> 0)"
  show "startCopy c env f \<noteq> None"
  proof (cases "in_open env \<and> f (src c) \<noteq> None \<and> out_open env")
    case False
    then show ?thesis
      using startCopy_not_opened [of env f c] by auto
  next
    case True
    then have opened: "in_open env" "f (src c) \<noteq> None" "out_open env"
      by simp_all
    show ?thesis
      unfolding startCopy_opened [where env = env and f = f and c = c, OF opened]
      using copy_loop_failing_step_returns [OF bad, of c env]
      by (auto split: option.splits loop_exit.splits)
  qed
qed


theorem startCopy_success_witness:
  "src \<lparr>src = ''/storage/sdcard1/update.zip'', dst = ''/mnt/sdcard/update.zip''\<rparr>
     \<noteq> dst \<lparr>src = ''/storage/sdcard1/update.zip'', dst = ''/mnt/sdcard/update.zip''\<rparr>
   \<and> startCopy \<lparr>src = ''/storage/sdcard1/update.zip'', dst = ''/mnt/sdcard/update.zip''\<rparr>
        \<lparr>in_open = True, out_open = True,
         script = [\<lparr>rd = 2, wr = 4194304\<rparr>, \<lparr>rd = 4194304, wr = 4194304\<rparr>,
                   \<lparr>rd = 1, wr = 4194304\<rparr>],
         progress_percent = (\<lambda>cur tot. int (cur * 100 div tot))\<rparr>
        [''/storage/sdcard1/update.zip'' \<mapsto> [1, 2, 3]]
     = Some ([''/storage/sdcard1/update.zip'' \<mapsto> [1, 2, 3],
              ''/mnt/sdcard/update.zip'' \<mapsto> [1, 2, 3]],
             [Read READ_CHUNK_SIZE 2, Write 2 2, Emit (CopyProgress 66),
              Read READ_CHUNK_SIZE 1, Write 1 1, Emit (CopyProgress 100), Emit CopyDone])
   \<and> written_bytes [Read READ_CHUNK_SIZE 2, Write 2 2, Emit (CopyProgress 66),
              Read READ_CHUNK_SIZE 1, Write 1 1, Emit (CopyProgress 100), Emit CopyDone] = 3"
proof -
  define c where
    "c = \<lparr>src = ''/storage/sdcard1/update.zip'', dst = ''/mnt/sdcard/update.zip''\<rparr>"
  define env where
    "env = \<lparr>in_open = True, out_open = True,
         script = [\<lparr>rd = 2, wr = 4194304\<rparr>, \<lparr>rd = 4194304, wr = 4194304\<rparr>,
                   \<lparr>rd = 1, wr = 4194304\<rparr>],
         progress_percent = (\<lambda>cur tot. int (cur * 100 div tot))\<rparr>"
  define f :: filesystem where "f = [''/storage/sdcard1/update.zip'' \<mapsto> [1, 2, 3]]"
  define tr where
    "tr = [Read READ_CHUNK_SIZE 2, Write 2 2, Emit (CopyProgress 66),
           Read READ_CHUNK_SIZE 1, Write 1 1, Emit (CopyProgress 100), Emit CopyDone]"
  have paths: "src c \<noteq> dst c \<and> f (src c) = Some [1, 2, 3]"
    by (simp add: c_def f_def)
  have run: "startCopy c env f = Some (f(''/mnt/sdcard/update.zip'' \<mapsto> [1, 2, 3]), tr)"
    by (simp add: startCopy_def copy_loop.simps atEnd_def file_bytes_def inFile_read_def
        outFile_write_def Let_def READ_CHUNK_SIZE_def c_def env_def f_def tr_def)
  have quiet: "copy_errors tr = []"
    by (simp add: tr_def)
  have "written_bytes tr = length [1, 2, 3 :: 8 word]"
    using startCopy_success [of c f "[1, 2, 3]" env] paths run quiet by blast
  then show ?thesis
    using paths run unfolding c_def env_def f_def tr_def by simp
qed

theorem startCopy_io_failure_witness:
  "startCopy \<lparr>src = ''/storage/sdcard1/update.zip'', dst = ''/mnt/sdcard/update.zip''\<rparr>
        \<lparr>in_open = True, out_open = True,
         script = [\<lparr>rd = 2, wr = 2\<rparr>, \<lparr>rd = 2, wr = 0\<rparr>],
         progress_percent = (\<lambda>cur tot. int (cur * 100 div tot))\<rparr>
        [''/storage/sdcard1/update.zip'' \<mapsto> [1, 2, 3],
         ''/mnt/sdcard/update.zip'' \<mapsto> [9]]
     = Some ([''/storage/sdcard1/update.zip'' \<mapsto> [1, 2, 3]],
             [Read READ_CHUNK_SIZE 2, Write 2 2, Emit (CopyProgress 66),
              Read READ_CHUNK_SIZE 1, Write 1 0,
              Emit (CopyError ''Error writing firmware file.'')])
   \<and> list_ex io_failed [Read READ_CHUNK_SIZE 2, Write 2 2, Emit (CopyProgress 66),
              Read READ_CHUNK_SIZE 1, Write 1 0,
              Emit (CopyError ''Error writing firmware file.'')]
   \<and> copy_errors [Read READ_CHUNK_SIZE 2, Write 2 2, Emit (CopyProgress 66),
              Read READ_CHUNK_SIZE 1, Write 1 0,
              Emit (CopyError ''Error writing firmware file.'')]
       = [''Error writing firmware file.'']"
proof -
  define c where
    "c = \<lparr>src = ''/storage/sdcard1/update.zip'', dst = ''/mnt/sdcard/update.zip''\<rparr>"
  define env where
    "env = \<lparr>in_open = True, out_open = True,
         script = [\<lparr>rd = 2, wr = 2\<rparr>, \<lparr>rd = 2, wr = 0\<rparr>],
         progress_percent = (\<lambda>cur tot. int (cur * 100 div tot))\<rparr>"
  define f :: filesystem where
    "f = [''/storage/sdcard1/update.zip'' \<mapsto> [1, 2, 3], ''/mnt/sdcard/update.zip'' \<mapsto> [9]]"
  define f' :: filesystem where "f' = [''/storage/sdcard1/update.zip'' \<mapsto> [1, 2, 3]]"
  define tr where
    "tr = [Read READ_CHUNK_SIZE 2, Write 2 2, Emit (CopyProgress 66),
           Read READ_CHUNK_SIZE 1, Write 1 0,
           Emit (CopyError ''Error writing firmware file.'')]"
  have run: "startCopy c env f = Some (f', tr)"
    by (simp add: startCopy_def copy_loop.simps atEnd_def file_bytes_def inFile_read_def
        outFile_write_def abort_copy_def Let_def READ_CHUNK_SIZE_def c_def env_def f_def
        f'_def tr_def fun_upd_twist)
  have failed: "list_ex io_failed tr"
    by (simp add: tr_def)
  have "\<exists>m. copy_errors tr = [m] \<and> last tr = Emit (CopyError m)"
    using startCopy_io_failure [of c env f] run failed by blast
  then have "copy_errors tr = [''Error writing firmware file.'']"
    by (auto simp: tr_def)
  then show ?thesis
    using run failed unfolding c_def env_def f_def f'_def tr_def by simp
qed

end
